theory Spec2Isabelle
  imports Main "HOL-Library.Monad_Syntax"
begin

section \<open>Strings\<close>

text \<open>
  A JavaScript string is a sequence of code units. It is modelled as a \<open>string\<close>, one
  \<open>char\<close> per code unit, which covers the code units \<open>0x00\<close> to \<open>0xFF\<close>. On that range
  the classes below are the ones of ECMAScript: \<open>\s\<close> and \<open>trim\<close> remove TAB, LF, VT, FF, CR,
  SPACE and NBSP; \<open>toLowerCase\<close> maps \<open>A-Z\<close> and the upper-case letters of Latin-1.
\<close>

definition code :: "char \<Rightarrow> nat" where
  "code c = of_char c"

definition is_space :: "char \<Rightarrow> bool" where
  "is_space c = (code c \<in> {9, 10, 11, 12, 13, 32, 160})"

definition trim :: "string \<Rightarrow> string" where
  "trim s = rev (dropWhile is_space (rev (dropWhile is_space s)))"

definition lower_char :: "char \<Rightarrow> char" where
  "lower_char c =
     (if (65 \<le> code c \<and> code c \<le> 90) \<or> (192 \<le> code c \<and> code c \<le> 222 \<and> code c \<noteq> 215)
      then char_of (code c + 32) else c)"

definition toLowerCase :: "string \<Rightarrow> string" where
  "toLowerCase s = map lower_char s"

text \<open>The digits of a counter, as a template literal prints a non-negative integer.\<close>

fun digits :: "nat \<Rightarrow> string" where
  "digits n = (if n < 10 then [char_of (48 + n)] else digits (n div 10) @ [char_of (48 + n mod 10)])"

declare digits.simps [simp del]

section \<open>The \<open>path\<close> module (POSIX flavour)\<close>

text \<open>
  \<open>path.basename\<close>, \<open>path.dirname\<close>, \<open>path.extname\<close> and \<open>path.join\<close> belong to the
  platform. They are modelled after Node's \<open>path.posix\<close>, the variant in use on macOS, where
  the extension runs.
\<close>

definition is_slash :: "char \<Rightarrow> bool" where
  "is_slash c = (c = CHR ''/'')"

definition basename :: "string \<Rightarrow> string" where
  "basename p = rev (takeWhile (\<lambda>c. \<not> is_slash c) (dropWhile is_slash (rev p)))"

definition dirname :: "string \<Rightarrow> string" where
  "dirname p =
     (case p of
        [] \<Rightarrow> ''.''
      | c # body \<Rightarrow>
          (let r = dropWhile (\<lambda>x. \<not> is_slash x) (dropWhile is_slash (rev body))
           in if r = [] then (if is_slash c then ''/'' else ''.'')
              else if is_slash c \<and> length r = 1 then ''//''
              else c # rev (tl r)))"

definition extname :: "string \<Rightarrow> string" where
  "extname p =
     (let b = basename p;
          suffix = rev (takeWhile (\<lambda>c. c \<noteq> CHR ''.'') (rev b));
          rest = dropWhile (\<lambda>c. c \<noteq> CHR ''.'') (rev b)
      in if rest = [] then []
         else if tl rest = [] then []
         else if b = ''..'' then []
         else CHR ''.'' # suffix)"

fun split_slash :: "string \<Rightarrow> string list" where
  "split_slash [] = [[]]"
| "split_slash (c # cs) =
     (if is_slash c then [] # split_slash cs
      else (case split_slash cs of [] \<Rightarrow> [[c]] | s # ss \<Rightarrow> (c # s) # ss))"

fun join_slash :: "string list \<Rightarrow> string" where
  "join_slash [] = []"
| "join_slash [s] = s"
| "join_slash (s # t # ss) = s @ CHR ''/'' # join_slash (t # ss)"

definition norm_step :: "bool \<Rightarrow> string list \<Rightarrow> string \<Rightarrow> string list" where
  "norm_step allowAboveRoot res seg =
     (if seg = [] \<or> seg = ''.'' then res
      else if seg = ''..'' then
        (if res \<noteq> [] \<and> last res \<noteq> ''..'' then butlast res
         else if allowAboveRoot then res @ [''..''] else res)
      else res @ [seg])"

definition normalizeString :: "string \<Rightarrow> bool \<Rightarrow> string" where
  "normalizeString p allowAboveRoot = join_slash (foldl (norm_step allowAboveRoot) [] (split_slash p))"

definition normalize :: "string \<Rightarrow> string" where
  "normalize p =
     (if p = [] then ''.''
      else
        (let isAbsolute = is_slash (hd p);
             trailingSeparator = is_slash (last p);
             q = normalizeString p (\<not> isAbsolute)
         in if q = [] then (if isAbsolute then ''/'' else if trailingSeparator then ''./'' else ''.'')
            else (if isAbsolute then ''/'' else []) @ q @ (if trailingSeparator then ''/'' else [])))"

definition join :: "string \<Rightarrow> string \<Rightarrow> string" where
  "join a b =
     (if a = [] \<and> b = [] then ''.''
      else normalize (if a = [] then b else if b = [] then a else a @ CHR ''/'' # b))"

section \<open>The name sanitizer\<close>

definition allowed :: "char \<Rightarrow> bool" where
  "allowed c =
     ((97 \<le> code c \<and> code c \<le> 122) \<or> (65 \<le> code c \<and> code c \<le> 90) \<or>
      (48 \<le> code c \<and> code c \<le> 57) \<or> c = CHR '' '' \<or> c = CHR ''_'' \<or> c = CHR ''-'')"

text \<open>\<open>replace(/\s+/g, " ")\<close>: every maximal run of white space becomes one space.\<close>

function collapse_spaces :: "string \<Rightarrow> string" where
  "collapse_spaces [] = []"
| "collapse_spaces (c # cs) =
     (if is_space c then CHR '' '' # collapse_spaces (dropWhile is_space cs)
      else c # collapse_spaces cs)"
  by pat_completeness auto
termination
  by (relation "measure length") (auto simp: le_imp_less_Suc length_dropWhile_le)

definition sanitizeFilename :: "string \<Rightarrow> string" where
  "sanitizeFilename name = take 100 (trim (collapse_spaces (filter allowed name)))"

text \<open>Two spaces in a row, somewhere in the string.\<close>

fun adjacent_spaces :: "string \<Rightarrow> bool" where
  "adjacent_spaces (a # b # cs) = ((a = CHR '' '' \<and> b = CHR '' '') \<or> adjacent_spaces (b # cs))"
| "adjacent_spaces _ = False"

section \<open>The filesystem\<close>

text \<open>
  The filesystem maps a path to the bytes stored there. \<open>fs.existsSync\<close>, \<open>fs.readFileSync\<close>,
  \<open>fs.unlinkSync\<close> and \<open>fs.renameSync\<close> are the platform's; a thrown \<open>Error\<close> is the value
  \<open>JsError message\<close>. A rename may also be refused by the platform (permissions), which the
  environment decides: \<open>Some message\<close> is the refusal.
\<close>

type_synonym filesystem = "string \<rightharpoonup> string"

datatype js_error = JsError (message: string)

definition existsSync :: "filesystem \<Rightarrow> string \<Rightarrow> bool" where
  "existsSync fs p = (fs p \<noteq> None)"

definition quoted :: "string \<Rightarrow> string" where
  "quoted p = CHR 0x27 # p @ [CHR 0x27]"

definition readFileSync :: "filesystem \<Rightarrow> string \<Rightarrow> js_error + string" where
  "readFileSync fs p =
     (case fs p of
        None \<Rightarrow> Inl (JsError (''ENOENT: no such file or directory, open '' @ quoted p))
      | Some bytes \<Rightarrow> Inr bytes)"

definition unlinkSync :: "filesystem \<Rightarrow> string \<Rightarrow> filesystem" where
  "unlinkSync fs p = fs(p := None)"

definition renameSync :: "string option \<Rightarrow> filesystem \<Rightarrow> string \<Rightarrow> string \<Rightarrow> js_error + filesystem" where
  "renameSync refusal fs oldPath newPath =
     (case refusal of
        Some m \<Rightarrow> Inl (JsError m)
      | None \<Rightarrow>
          (case fs oldPath of
             None \<Rightarrow>
               Inl (JsError (''ENOENT: no such file or directory, rename '' @ quoted oldPath @
                             '' -> '' @ quoted newPath))
           | Some bytes \<Rightarrow> Inr ((fs(oldPath := None))(newPath \<mapsto> bytes))))"

section \<open>The environment of one call\<close>

text \<open>
  What the outside world answers during one call of \<open>renameImage\<close>: the temporary directory,
  the clock, the run of a command line by the shell that \<open>execSync\<close> starts (whether it exits with an
  error, and the changes it makes to the filesystem: a path with the bytes written there, or
  with \<open>None\<close> when the file is removed), the HTTP exchange, and whether the platform refuses
  the final rename. A fetch that is aborted by its timeout signal is a rejection.
\<close>

record chat_message =
  role :: string
  content :: "string option"

record chat_choice =
  message_of :: "chat_message option"
  finish_reason :: string

text \<open>\<open>api_error\<close> is the \<open>message\<close> of the optional \<open>error\<close> object.\<close>

record ChatCompletionResponse =
  choices :: "chat_choice list option"
  api_error :: "string option"

record response =
  http_status :: nat
  statusText :: string
  json :: "js_error + ChatCompletionResponse"

definition ok :: "response \<Rightarrow> bool" where
  "ok r = (200 \<le> http_status r \<and> http_status r \<le> 299)"

record chat_request =
  request_model :: string
  request_mimeType :: string
  request_image :: string

record call_env =
  tmpdir :: string
  now :: nat
  shell :: "string \<Rightarrow> filesystem \<Rightarrow> string option \<times> (string \<times> string option) list"
  fetch :: "chat_request \<Rightarrow> js_error + response"
  rename_refusal :: "string option"

section \<open>The image preprocessor\<close>

definition IMAGE_MAX_DIMENSION :: nat where
  "IMAGE_MAX_DIMENSION = 512"

definition JPEG_QUALITY :: nat where
  "JPEG_QUALITY = 80"

definition apply_changes :: "filesystem \<Rightarrow> (string \<times> string option) list \<Rightarrow> filesystem" where
  "apply_changes fs changes = foldl (\<lambda>f (p, v). f(p := v)) fs changes"

text \<open>
  \<open>execSync\<close> hands the whole command line to the shell; it throws when the command exits
  with an error. What the command did to the filesystem stays done either way.
\<close>

definition execSync ::
  "(string \<Rightarrow> filesystem \<Rightarrow> string option \<times> (string \<times> string option) list) \<Rightarrow>
     string \<Rightarrow> filesystem \<Rightarrow> (js_error + unit) \<times> filesystem" where
  "execSync sh command fs =
     (case sh command fs of
        (failure, changes) \<Rightarrow>
          (case failure of Some m \<Rightarrow> Inl (JsError m) | None \<Rightarrow> Inr (),
           apply_changes fs changes))"

definition dquoted :: "string \<Rightarrow> string" where
  "dquoted p = CHR 0x22 # p @ [CHR 0x22]"

text \<open>The command line, with the image path and the scratch path between double quotes.\<close>

definition sipsCommand :: "string \<Rightarrow> string \<Rightarrow> string" where
  "sipsCommand imagePath out =
     ''sips --resampleHeightWidthMax '' @ digits IMAGE_MAX_DIMENSION @
     '' --setProperty format jpeg --setProperty formatOptions '' @ digits JPEG_QUALITY @
     '' '' @ dquoted imagePath @ '' --out '' @ dquoted out"

definition tmpFile :: "call_env \<Rightarrow> string" where
  "tmpFile env = join (tmpdir env) (''raycast-lmstudio-'' @ digits (now env) @ ''.jpg'')"

text \<open>The \<open>try\<close> block, then the \<open>finally\<close> block, which runs on every way out of it.\<close>

definition preprocessImage :: "call_env \<Rightarrow> filesystem \<Rightarrow> string \<Rightarrow> (js_error + string) \<times> filesystem" where
  "preprocessImage env fs imagePath =
     (let (ran, fs1) = execSync (shell env) (sipsCommand imagePath (tmpFile env)) fs;
          processed = (case ran of Inl e \<Rightarrow> Inl e | Inr _ \<Rightarrow> readFileSync fs1 (tmpFile env));
          fs2 = (if existsSync fs1 (tmpFile env) then unlinkSync fs1 (tmpFile env) else fs1)
      in (processed, fs2))"

section \<open>The vision API client\<close>

text \<open>Both functions receive the outcome of their \<open>fetch\<close> from the environment.\<close>

definition checkServerConnection :: "js_error + response \<Rightarrow> bool" where
  "checkServerConnection fetched = (case fetched of Inl e \<Rightarrow> False | Inr r \<Rightarrow> ok r)"

definition getMimeType :: "string \<Rightarrow> string" where
  "getMimeType filePath =
     (case map_of
        [(''.jpg'', ''image/jpeg''), (''.jpeg'', ''image/jpeg''), (''.png'', ''image/png''),
         (''.gif'', ''image/gif''), (''.webp'', ''image/webp''), (''.bmp'', ''image/bmp''),
         (''.tiff'', ''image/tiff'')] (toLowerCase (extname filePath)) of
        None \<Rightarrow> ''image/jpeg''
      | Some m \<Rightarrow> m)"

text \<open>\<open>data.choices?.[0]?.message?.content?.trim()\<close>\<close>

definition suggestedName :: "ChatCompletionResponse \<Rightarrow> string option" where
  "suggestedName data =
     do {
       cs \<leftarrow> choices data;
       c \<leftarrow> (case cs of [] \<Rightarrow> None | c # _ \<Rightarrow> Some c);
       m \<leftarrow> message_of c;
       t \<leftarrow> content m;
       Some (trim t)
     }"

text \<open>The part of \<open>getImageName\<close> from the \<open>fetch\<close> on.\<close>

definition describeImage :: "js_error + response \<Rightarrow> js_error + string" where
  "describeImage fetched =
     (case fetched of
        Inl e \<Rightarrow> Inl e
      | Inr r \<Rightarrow>
          if \<not> ok r then Inl (JsError (''API request failed: '' @ statusText r))
          else
            (case json r of
               Inl e \<Rightarrow> Inl e
             | Inr data \<Rightarrow>
                 (case api_error data of
                    Some m \<Rightarrow> Inl (JsError (''LM Studio error: '' @ m))
                  | None \<Rightarrow>
                      (case suggestedName data of
                         None \<Rightarrow> Inl (JsError ''No name suggestion returned'')
                       | Some s \<Rightarrow>
                           if s = [] then Inl (JsError ''No name suggestion returned'')
                           else Inr s))))"

definition getImageName :: "call_env \<Rightarrow> filesystem \<Rightarrow> string \<Rightarrow> string \<Rightarrow> (js_error + string) \<times> filesystem" where
  "getImageName env fs imagePath model =
     (case preprocessImage env fs imagePath of
        (Inl e, fs1) \<Rightarrow> (Inl e, fs1)
      | (Inr processedBuffer, fs1) \<Rightarrow>
          (describeImage
             (fetch env \<lparr>request_model = model, request_mimeType = getMimeType imagePath,
                         request_image = processedBuffer\<rparr>),
           fs1))"

section \<open>The collision resolver\<close>

text \<open>
  The \<open>while\<close> loop has no bound, so it is a partial function: \<open>None\<close> is the run that never
  leaves the loop. The counter is a natural number.
\<close>

partial_function (option) getUniqueFilename_loop ::
  "filesystem \<Rightarrow> string \<Rightarrow> string \<Rightarrow> string \<Rightarrow> string \<Rightarrow> nat \<Rightarrow> string option" where
  "getUniqueFilename_loop fs dir baseName ext candidate counter =
     (if existsSync fs candidate
      then getUniqueFilename_loop fs dir baseName ext
             (join dir (baseName @ ''_'' @ digits counter @ ext)) (counter + 1)
      else Some candidate)"

declare getUniqueFilename_loop.simps [code]

definition getUniqueFilename :: "filesystem \<Rightarrow> string \<Rightarrow> string \<Rightarrow> string \<Rightarrow> string option" where
  "getUniqueFilename fs dir baseName ext =
     getUniqueFilename_loop fs dir baseName ext (join dir (baseName @ ext)) 1"

text \<open>
  The paths the resolver probes, in the specification's words: \<open>dir/baseName.ext\<close> first
  (number 0), then \<open>dir/baseName_k.ext\<close> for \<open>k = 1, 2, \<dots>\<close>
\<close>

definition candidate :: "string \<Rightarrow> string \<Rightarrow> string \<Rightarrow> nat \<Rightarrow> string" where
  "candidate dir baseName ext k =
     (if k = 0 then join dir (baseName @ ext) else join dir (baseName @ ''_'' @ digits k @ ext))"

section \<open>The rename orchestrator\<close>

record RenameResult =
  success :: bool
  oldName :: string
  newName :: "string option"
  error :: "string option"

definition renameImage :: "call_env \<Rightarrow> filesystem \<Rightarrow> string \<Rightarrow> string \<Rightarrow> (RenameResult \<times> filesystem) option" where
  "renameImage env fs imagePath model =
     (let old = basename imagePath;
          dir = dirname imagePath;
          ext = toLowerCase (extname imagePath)
      in case getImageName env fs imagePath model of
           (Inl e, fs1) \<Rightarrow>
             Some (\<lparr>success = False, oldName = old, newName = None, error = Some (message e)\<rparr>, fs1)
         | (Inr suggested, fs1) \<Rightarrow>
             (let cleanName = sanitizeFilename suggested
              in if cleanName = [] then
                   Some (\<lparr>success = False, oldName = old, newName = None,
                          error = Some ''Empty name returned''\<rparr>, fs1)
                 else
                   (case getUniqueFilename fs1 dir cleanName ext of
                      None \<Rightarrow> None
                    | Some newPath \<Rightarrow>
                        (let new = basename newPath
                         in if old = new then
                              Some (\<lparr>success = True, oldName = old, newName = Some new,
                                     error = Some ''Name unchanged''\<rparr>, fs1)
                            else
                              (case renameSync (rename_refusal env) fs1 imagePath newPath of
                                 Inl e \<Rightarrow>
                                   Some (\<lparr>success = False, oldName = old, newName = None,
                                          error = Some (message e)\<rparr>, fs1)
                               | Inr fs2 \<Rightarrow>
                                   Some (\<lparr>success = True, oldName = old, newName = Some new,
                                          error = None\<rparr>, fs2))))))"

section \<open>The batch runner\<close>

record ImageFile =
  path :: string
  name :: string

datatype status = Pending | Processing | Success | Error | Skipped

text \<open>The fields of \<open>ProcessingResult\<close>; the prime tells them from those of \<open>RenameResult\<close>.\<close>

record ProcessingResult =
  oldName' :: string
  newName' :: "string option"
  status :: status
  error' :: "string option"

text \<open>The value the second \<open>setResults\<close> stores at index \<open>i\<close>.\<close>

definition shown :: "RenameResult \<Rightarrow> ProcessingResult" where
  "shown result =
     (if success result then
        (if error result = Some ''Name unchanged'' then
           \<lparr>oldName' = oldName result, newName' = newName result, status = Skipped,
            error' = Some ''Name unchanged''\<rparr>
         else
           \<lparr>oldName' = oldName result, newName' = newName result, status = Success,
            error' = None\<rparr>)
      else
        \<lparr>oldName' = oldName result, newName' = None, status = Error, error' = error result\<rparr>)"

text \<open>
  The loop's state: the filesystem, the component's \<open>results\<close> and the local \<open>successCount\<close>.
  The environment of the call for the image at index \<open>i\<close> is \<open>world i\<close>. The index stays
  below the length of \<open>results\<close>, so both updates are in range.
\<close>

record batch =
  files :: filesystem
  results :: "ProcessingResult list"
  successCount :: nat

function processImages_loop ::
  "(nat \<Rightarrow> call_env) \<Rightarrow> string \<Rightarrow> ImageFile list \<Rightarrow> nat \<Rightarrow> batch \<Rightarrow> batch option" where
  "processImages_loop world model images i st =
     (if i < length images then
        (let image = images ! i;
             processing = (results st)[i := (results st ! i)\<lparr>status := Processing\<rparr>]
         in case renameImage (world i) (files st) (path image) model of
              None \<Rightarrow> None
            | Some (result, fs') \<Rightarrow>
                processImages_loop world model images (i + 1)
                  \<lparr>files = fs',
                   results = processing[i := shown result],
                   successCount = (if success result then successCount st + 1 else successCount st)\<rparr>)
      else Some st)"
  by pat_completeness auto
termination
  by (relation "measure (\<lambda>(world, model, images, i, st). length images - i)") auto

declare processImages_loop.simps [simp del]

text \<open>The toast shown when the batch is through.\<close>

record toast =
  title :: string
  toast_message :: string

record finished =
  final_files :: filesystem
  final_results :: "ProcessingResult list"
  final_successCount :: nat
  total :: nat
  shown_toast :: toast

definition processImages ::
  "(nat \<Rightarrow> call_env) \<Rightarrow> string \<Rightarrow> ImageFile list \<Rightarrow> filesystem \<Rightarrow> finished option" where
  "processImages world model images fs =
     (case processImages_loop world model images 0
             \<lparr>files = fs,
              results = map (\<lambda>img. \<lparr>oldName' = name img, newName' = None, status = Pending,
                                    error' = None\<rparr>) images,
              successCount = 0\<rparr> of
        None \<Rightarrow> None
      | Some st \<Rightarrow>
          Some \<lparr>final_files = files st, final_results = results st,
                final_successCount = successCount st, total = length images,
                shown_toast =
                  \<lparr>title = ''Processing Complete'',
                   toast_message = ''Renamed '' @ digits (successCount st) @ '' of '' @
                                   digits (length images) @ '' images''\<rparr>\<rparr>)"

text \<open>
  The batch in the specification's words: one outcome per task, in the order of the tasks,
  each the outcome of the orchestrator in the filesystem its predecessors left. The task at
  the head of the list has index \<open>i\<close>.
\<close>

fun outcomes ::
  "(nat \<Rightarrow> call_env) \<Rightarrow> string \<Rightarrow> nat \<Rightarrow> filesystem \<Rightarrow> ImageFile list \<Rightarrow>
     (RenameResult list \<times> filesystem) option" where
  "outcomes world model i fs [] = Some ([], fs)"
| "outcomes world model i fs (img # rest) =
     (case renameImage (world i) fs (path img) model of
        None \<Rightarrow> None
      | Some (r, fs') \<Rightarrow>
          (case outcomes world model (Suc i) fs' rest of
             None \<Rightarrow> None
           | Some (rs, fs'') \<Rightarrow> Some (r # rs, fs'')))"

section \<open>Notions of the statements\<close>

text \<open>A path segment that \<open>path.normalize\<close> keeps as it is: no separator, not empty, not dots.\<close>

definition plain_segment :: "string \<Rightarrow> bool" where
  "plain_segment s = (CHR ''/'' \<notin> set s \<and> s \<noteq> [] \<and> s \<noteq> ''.'' \<and> s \<noteq> ''..'')"

text \<open>The paths that the run of the conversion command changes.\<close>

definition touched :: "call_env \<Rightarrow> filesystem \<Rightarrow> string \<Rightarrow> string set" where
  "touched env fs imagePath =
     fst ` set (snd (shell env (sipsCommand imagePath (tmpFile env)) fs))"

text \<open>Whether a command line holds a given piece of text.\<close>

fun starts_with :: "string \<Rightarrow> string \<Rightarrow> bool" where
  "starts_with [] s = True"
| "starts_with (a # as) [] = False"
| "starts_with (a # as) (b # bs) = (a = b \<and> starts_with as bs)"

fun contains :: "string \<Rightarrow> string \<Rightarrow> bool" where
  "contains w [] = (w = [])"
| "contains w (c # cs) = (starts_with w (c # cs) \<or> contains w cs)"

text \<open>
  The first choice's message content, in the claim's words: absent when a link of the chain
  \<open>choices\<close>, first element, \<open>message\<close>, \<open>content\<close> is.
\<close>

definition first_content :: "ChatCompletionResponse \<Rightarrow> string option" where
  "first_content data =
     (case choices data of
        None \<Rightarrow> None
      | Some [] \<Rightarrow> None
      | Some (c # _) \<Rightarrow> (case message_of c of None \<Rightarrow> None | Some m \<Rightarrow> content m))"

text \<open>
  When the call fails, in the claim's words: the HTTP call fails or returns non-2xx, or the
  parsed body has an error field, or the first choice's content is absent or trims to the
  empty string.
\<close>

definition claimed_failure :: "js_error + response \<Rightarrow> bool" where
  "claimed_failure fetched =
     (case fetched of
        Inl e \<Rightarrow> True
      | Inr r \<Rightarrow>
          (if ok r then
             (case json r of
                Inl e \<Rightarrow> False
              | Inr data \<Rightarrow>
                  (if api_error data = None then
                     (case first_content data of None \<Rightarrow> True | Some t \<Rightarrow> trim t = [])
                   else True))
           else True))"

section \<open>Properties of the sanitizer\<close>

lemma is_space_blank [simp]: "is_space CHR '' ''"
  by (simp add: is_space_def code_def)

lemma not_allowed_slash [simp]: "\<not> allowed CHR ''/''"
  by (simp add: allowed_def code_def)

lemma not_allowed_dot [simp]: "\<not> allowed CHR ''.''"
  by (simp add: allowed_def code_def)

lemma allowed_blank [simp]: "allowed CHR '' ''"
  by (simp add: allowed_def)

lemma set_collapse_spaces: "set (collapse_spaces s) \<subseteq> insert CHR '' '' (set s)"
proof (induction s rule: collapse_spaces.induct)
  case 1
  show ?case by simp
next
  case (2 c cs)
  have "set (dropWhile is_space cs) \<subseteq> set cs"
    by (simp add: set_dropWhileD subsetI)
  with 2 show ?case by auto
qed

lemma set_trim: "set (trim s) \<subseteq> set s"
proof -
  have "set (trim s) \<subseteq> set (dropWhile is_space s)"
    unfolding trim_def by (auto dest: set_dropWhileD)
  then show ?thesis by (auto dest: set_dropWhileD)
qed

lemma sanitizeFilename_allowed: "c \<in> set (sanitizeFilename raw) \<Longrightarrow> allowed c"
proof -
  assume "c \<in> set (sanitizeFilename raw)"
  then have "c \<in> set (trim (collapse_spaces (filter allowed raw)))"
    unfolding sanitizeFilename_def by (rule in_set_takeD)
  then have "c \<in> set (collapse_spaces (filter allowed raw))"
    using set_trim by blast
  then have "c \<in> insert CHR '' '' (set (filter allowed raw))"
    using set_collapse_spaces by blast
  then show "allowed c" by auto
qed

lemma sanitizeFilename_length: "length (sanitizeFilename raw) \<le> 100"
  by (simp add: sanitizeFilename_def)

lemma adjacent_spaces_append:
  "adjacent_spaces (xs @ ys) =
     (adjacent_spaces xs \<or> adjacent_spaces ys \<or>
      (xs \<noteq> [] \<and> ys \<noteq> [] \<and> last xs = CHR '' '' \<and> hd ys = CHR '' ''))"
  by (induction xs rule: adjacent_spaces.induct; cases ys; auto)

lemma adjacent_spaces_rev: "adjacent_spaces (rev s) = adjacent_spaces s"
proof (induction s)
  case Nil
  show ?case by simp
next
  case (Cons a s)
  have "adjacent_spaces (a # s) = (adjacent_spaces s \<or> (s \<noteq> [] \<and> a = CHR '' '' \<and> hd s = CHR '' ''))"
    using adjacent_spaces_append [of "[a]" s] by simp
  with Cons show ?case
    by (auto simp: adjacent_spaces_append last_rev hd_rev)
qed

lemma adjacent_spaces_dropWhile: "\<not> adjacent_spaces s \<Longrightarrow> \<not> adjacent_spaces (dropWhile P s)"
  using adjacent_spaces_append [of "takeWhile P s" "dropWhile P s"] by simp

lemma adjacent_spaces_take: "\<not> adjacent_spaces s \<Longrightarrow> \<not> adjacent_spaces (take n s)"
  using adjacent_spaces_append [of "take n s" "drop n s"] by simp

lemma adjacent_spaces_trim: "\<not> adjacent_spaces s \<Longrightarrow> \<not> adjacent_spaces (trim s)"
  unfolding trim_def by (simp add: adjacent_spaces_rev adjacent_spaces_dropWhile)

lemma hd_collapse_spaces: "s \<noteq> [] \<Longrightarrow> \<not> is_space (hd s) \<Longrightarrow> hd (collapse_spaces s) = hd s"
  by (cases s) auto

lemma collapse_spaces_Nil_iff [simp]: "collapse_spaces s = [] \<longleftrightarrow> s = []"
  by (cases s) auto

lemma adjacent_spaces_collapse: "\<not> adjacent_spaces (collapse_spaces s)"
proof (induction s rule: collapse_spaces.induct)
  case 1
  show ?case by simp
next
  case (2 c cs)
  show ?case
  proof (cases "is_space c")
    case True
    let ?t = "dropWhile is_space cs"
    have ih: "\<not> adjacent_spaces (collapse_spaces ?t)" using 2 True by simp
    have "?t \<noteq> [] \<Longrightarrow> hd (collapse_spaces ?t) \<noteq> CHR '' ''"
    proof -
      assume ne: "?t \<noteq> []"
      then have "\<not> is_space (hd ?t)" by (simp add: hd_dropWhile)
      with ne have "hd (collapse_spaces ?t) = hd ?t" by (rule hd_collapse_spaces)
      with \<open>\<not> is_space (hd ?t)\<close> show ?thesis by auto
    qed
    with ih True show ?thesis
      using adjacent_spaces_append [of "[CHR '' '']" "collapse_spaces ?t"] by auto
  next
    case False
    then have "c \<noteq> CHR '' ''" by auto
    with 2 False show ?thesis
      using adjacent_spaces_append [of "[c]" "collapse_spaces cs"] by auto
  qed
qed

lemma sanitizeFilename_no_adjacent_spaces: "\<not> adjacent_spaces (sanitizeFilename raw)"
  unfolding sanitizeFilename_def
  by (intro adjacent_spaces_take adjacent_spaces_trim adjacent_spaces_collapse)

lemma trim_hd: "trim s \<noteq> [] \<Longrightarrow> \<not> is_space (hd (trim s))"
proof -
  assume ne: "trim s \<noteq> []"
  let ?t = "dropWhile is_space s"
  have split: "?t = trim s @ rev (takeWhile is_space (rev ?t))"
    unfolding trim_def by (metis rev_append rev_rev_ident takeWhile_dropWhile_id)
  have "?t \<noteq> []"
  proof
    assume "?t = []"
    then have "trim s = []" by (simp only: trim_def rev.simps dropWhile.simps)
    with ne show False by simp
  qed
  then have "\<not> is_space (hd ?t)" by (simp add: hd_dropWhile)
  moreover have "hd ?t = hd (trim s)" using split ne by (metis hd_append2)
  ultimately show ?thesis by simp
qed

lemma sanitizeFilename_no_leading_space:
  "sanitizeFilename raw \<noteq> [] \<Longrightarrow> hd (sanitizeFilename raw) \<noteq> CHR '' ''"
proof -
  assume ne: "sanitizeFilename raw \<noteq> []"
  let ?t = "trim (collapse_spaces (filter allowed raw))"
  from ne have "?t \<noteq> []" unfolding sanitizeFilename_def by auto
  then have "\<not> is_space (hd ?t)" by (rule trim_hd)
  moreover have "hd (sanitizeFilename raw) = hd ?t"
    using ne unfolding sanitizeFilename_def by (simp add: hd_take)
  ultimately show ?thesis by auto
qed

text \<open>
  C2. The claim: for every input the sanitizer's output consists of letters, digits, space,
  underscore and hyphen only, is at most 100 characters long, has no two spaces in a row and
  has neither a leading nor a trailing space. The first four parts hold (lemmas above). The
  last one does not: the source trims first and truncates afterwards, so a space that ends up
  as the 100th character stays. For the input of 99 letters \<open>a\<close>, a space and a \<open>b\<close> the
  output is the 99 letters followed by the space.
\<close>

theorem sanitizeFilename_trailing_space:
  "sanitizeFilename (replicate 99 CHR ''a'' @ '' b'') = replicate 99 CHR ''a'' @ '' '' \<and>
   last (sanitizeFilename (replicate 99 CHR ''a'' @ '' b'')) = CHR '' ''"
  by code_simp

section \<open>Properties of the digits and of the paths\<close>

lemma digits_not_Nil [simp]: "digits n \<noteq> []"
  by (subst digits.simps) simp

lemma digit_char_inj: "a < 10 \<Longrightarrow> b < 10 \<Longrightarrow> char_of (48 + a) = char_of (48 + b) \<Longrightarrow> a = (b::nat)"
proof -
  assume a: "a < 10" and b: "b < 10" and eq: "char_of (48 + a) = char_of (48 + b)"
  from eq have "(of_char (char_of (48 + a)) :: nat) = of_char (char_of (48 + b))" by simp
  then have "(48 + a) mod 256 = (48 + b) mod 256" by simp
  with a b show ?thesis by simp
qed

lemma digits_inj: "digits n = digits m \<Longrightarrow> n = m"
proof (induction n arbitrary: m rule: digits.induct)
  case (1 n)
  show ?case
  proof (cases "n < 10")
    case small: True
    show ?thesis
    proof (cases "m < 10")
      case True
      with small 1(2) have "char_of (48 + n) = (char_of (48 + m) :: char)"
        by (simp add: digits.simps [of n] digits.simps [of m])
      with small True show ?thesis by (intro digit_char_inj)
    next
      case False
      have "length (digits m) \<ge> 2"
        using False digits_not_Nil [of "m div 10"]
        by (subst digits.simps) (simp add: Suc_le_eq)
      moreover have "length (digits n) = 1" using small by (subst digits.simps) simp
      ultimately show ?thesis using 1(2) by simp
    qed
  next
    case big: False
    show ?thesis
    proof (cases "m < 10")
      case True
      have "length (digits n) \<ge> 2"
        using big digits_not_Nil [of "n div 10"]
        by (subst digits.simps) (simp add: Suc_le_eq)
      moreover have "length (digits m) = 1" using True by (subst digits.simps) simp
      ultimately show ?thesis using 1(2) by simp
    next
      case False
      from 1(2) big False
      have eq: "digits (n div 10) @ [char_of (48 + n mod 10)] = digits (m div 10) @ [char_of (48 + m mod 10)]"
        by (simp add: digits.simps [of n] digits.simps [of m])
      then have "digits (n div 10) = digits (m div 10)" by simp
      with 1(1) big have d: "n div 10 = m div 10" by blast
      from eq have "char_of (48 + n mod 10) = char_of (48 + m mod 10)" by simp
      then have "n mod 10 = m mod 10" by (intro digit_char_inj) simp_all
      with d show ?thesis by (metis div_mult_mod_eq)
    qed
  qed
qed

lemma split_slash_not_Nil [simp]: "split_slash p \<noteq> []"
  by (induction p) (auto split: list.splits)

lemma split_slash_no_slash: "CHR ''/'' \<notin> set s \<Longrightarrow> split_slash s = [s]"
  by (induction s) (auto simp: is_slash_def)

lemma split_slash_append_slash:
  "CHR ''/'' \<notin> set s \<Longrightarrow> split_slash (x @ CHR ''/'' # s) = split_slash x @ [s]"
proof (induction x)
  case Nil
  then show ?case by (simp add: split_slash_no_slash is_slash_def)
next
  case (Cons c x)
  then show ?case by (cases "split_slash x") (auto simp: is_slash_def)
qed

lemma join_slash_snoc:
  "join_slash (rs @ [s]) = (if rs = [] then s else join_slash rs @ CHR ''/'' # s)"
  by (induction rs rule: join_slash.induct) auto

lemma norm_step_plain: "plain_segment s \<Longrightarrow> norm_step a rs s = rs @ [s]"
  by (simp add: norm_step_def plain_segment_def)

lemma normalizeString_plain_last:
  assumes "plain_segment s" and "x = [] \<or> last x = CHR ''/''"
  shows "\<exists>rs. normalizeString (x @ s) a = (if rs = [] then s else join_slash rs @ CHR ''/'' # s)"
proof -
  from assms(1) have ns: "CHR ''/'' \<notin> set s" by (simp add: plain_segment_def)
  have "\<exists>ys. split_slash (x @ s) = ys @ [s]"
  proof (cases "x = []")
    case True
    with ns show ?thesis by (simp add: split_slash_no_slash)
  next
    case False
    with assms(2) obtain x' where "x = x' @ [CHR ''/'']"
      by (metis append_butlast_last_id)
    with ns show ?thesis by (simp add: split_slash_append_slash)
  qed
  then obtain ys where "split_slash (x @ s) = ys @ [s]" ..
  then have "normalizeString (x @ s) a = join_slash (foldl (norm_step a) [] ys @ [s])"
    by (simp add: normalizeString_def norm_step_plain [OF assms(1)])
  then show ?thesis by (auto simp: join_slash_snoc)
qed

lemma basename_append_plain:
  assumes "plain_segment s" and "w = [] \<or> last w = CHR ''/''"
  shows "basename (w @ s) = s"
proof -
  from assms(1) have ns: "\<forall>c\<in>set (rev s). \<not> is_slash c" and ne: "s \<noteq> []"
    by (auto simp: plain_segment_def is_slash_def)
  from ne ns have hd: "\<not> is_slash (hd (rev s))" by (simp add: hd_rev)
  have d: "dropWhile is_slash (rev s @ rev w) = rev s @ rev w"
    using ne hd by (cases "rev s") auto
  have "takeWhile (\<lambda>c. \<not> is_slash c) (rev s @ rev w) = rev s"
  proof (cases "w = []")
    case True
    with ns show ?thesis by simp
  next
    case False
    with assms(2) have "is_slash (hd (rev w))" by (simp add: hd_rev is_slash_def)
    with False have "takeWhile (\<lambda>c. \<not> is_slash c) (rev w) = []" by (cases "rev w") auto
    moreover have "takeWhile (\<lambda>c. \<not> is_slash c) (rev s @ rev w) =
        rev s @ takeWhile (\<lambda>c. \<not> is_slash c) (rev w)"
      by (rule takeWhile_append2) (use ns in auto)
    ultimately show ?thesis by simp
  qed
  with d show ?thesis by (simp add: basename_def)
qed

lemma basename_normalize_plain:
  assumes "plain_segment s" and "x = [] \<or> last x = CHR ''/''"
  shows "basename (normalize (x @ s)) = s"
proof -
  from assms(1) have ne: "s \<noteq> []" and ns: "CHR ''/'' \<notin> set s"
    by (auto simp: plain_segment_def)
  from ne have "last s \<in> set s" by simp
  with ns have nl: "\<not> is_slash (last s)" by (auto simp: is_slash_def)
  obtain rs where q: "normalizeString (x @ s) (\<not> is_slash (hd (x @ s))) =
      (if rs = [] then s else join_slash rs @ CHR ''/'' # s)"
    using normalizeString_plain_last [OF assms] by blast
  let ?q = "normalizeString (x @ s) (\<not> is_slash (hd (x @ s)))"
  from q ne have qne: "?q \<noteq> []" by (auto split: if_splits)
  have "normalize (x @ s) = (if is_slash (hd (x @ s)) then ''/'' else []) @ ?q"
    using ne nl qne by (simp add: normalize_def Let_def)
  then have "\<exists>w. normalize (x @ s) = w @ s \<and> (w = [] \<or> last w = CHR ''/'')"
    using q by (cases "rs = []") auto
  then obtain w where "normalize (x @ s) = w @ s" and "w = [] \<or> last w = CHR ''/''" by blast
  then show ?thesis using basename_append_plain [OF assms(1)] by simp
qed

text \<open>The last component of a joined path, when the second part ends in a plain stem.\<close>

lemma basename_join:
  assumes "CHR ''/'' \<notin> set t" and "t \<noteq> []" and "CHR ''_'' \<in> set t"
  shows "basename (join a (b @ t)) =
           rev (takeWhile (\<lambda>c. \<not> is_slash c) (rev ((if a = [] then [] else a @ ''/'') @ b))) @ t"
proof -
  let ?y = "(if a = [] then [] else a @ ''/'') @ b"
  let ?u = "rev (takeWhile (\<lambda>c. \<not> is_slash c) (rev ?y))"
  let ?x = "rev (dropWhile (\<lambda>c. \<not> is_slash c) (rev ?y))"
  have y: "?y = ?x @ ?u"
    by (metis rev_append rev_rev_ident takeWhile_dropWhile_id)
  have x: "?x = [] \<or> last ?x = CHR ''/''"
  proof (cases "dropWhile (\<lambda>c. \<not> is_slash c) (rev ?y) = []")
    case True
    then show ?thesis by simp
  next
    case False
    then have "is_slash (hd (dropWhile (\<lambda>c. \<not> is_slash c) (rev ?y)))"
      using hd_dropWhile by (metis (mono_tags, lifting))
    with False show ?thesis by (simp add: last_rev is_slash_def)
  qed
  have u: "CHR ''/'' \<notin> set ?u"
    using set_takeWhileD by (fastforce simp: is_slash_def)
  have "?u @ t \<noteq> ''.''" "?u @ t \<noteq> ''..''"
    using assms(3) by (auto simp: append_eq_Cons_conv)
  with u assms have plain: "plain_segment (?u @ t)"
    by (simp add: plain_segment_def)
  have "join a (b @ t) = normalize (?y @ t)"
    using assms(2) by (simp add: join_def)
  also have "?y @ t = ?x @ (?u @ t)" using y by (metis append.assoc)
  finally show ?thesis using basename_normalize_plain [OF plain x] by simp
qed

section \<open>Properties of the collision resolver\<close>

lemma digits_no_slash: "CHR ''/'' \<notin> set (digits n)"
proof (induction n rule: digits.induct)
  case (1 n)
  have d: "char_of (48 + m) \<noteq> CHR ''/''" if "m < 10" for m :: nat
  proof
    assume "char_of (48 + m) = CHR ''/''"
    then have "(of_char (char_of (48 + m)) :: nat) = of_char CHR ''/''" by simp
    with that show False by simp
  qed
  show ?case
  proof (cases "n < 10")
    case True
    then show ?thesis using d [of n] by (subst digits.simps) simp
  next
    case False
    with 1 have "CHR ''/'' \<notin> set (digits (n div 10))" by simp
    with False show ?thesis using d [of "n mod 10"] by (subst digits.simps) simp
  qed
qed

lemma loop_stop:
  "\<not> existsSync fs c \<Longrightarrow> getUniqueFilename_loop fs d b e c n = Some c"
  by (subst getUniqueFilename_loop.simps) simp

lemma loop_step:
  "existsSync fs c \<Longrightarrow> 0 < n \<Longrightarrow>
     getUniqueFilename_loop fs d b e c n = getUniqueFilename_loop fs d b e (candidate d b e n) (Suc n)"
  by (subst getUniqueFilename_loop.simps) (simp add: candidate_def)

lemma loop_first_fit:
  "existsSync fs c \<Longrightarrow> 0 < n \<Longrightarrow> n \<le> k \<Longrightarrow>
   (\<forall>j. n \<le> j \<and> j < k \<longrightarrow> existsSync fs (candidate d b e j)) \<Longrightarrow>
   \<not> existsSync fs (candidate d b e k) \<Longrightarrow>
   getUniqueFilename_loop fs d b e c n = Some (candidate d b e k)"
proof (induction "k - n" arbitrary: n c)
  case 0
  then have "n = k" by simp
  with 0 show ?case by (simp add: loop_step loop_stop)
next
  case (Suc m)
  then have lt: "n < k" by simp
  with Suc.prems have ex: "existsSync fs (candidate d b e n)" by simp
  have "getUniqueFilename_loop fs d b e (candidate d b e n) (Suc n) = Some (candidate d b e k)"
  proof (rule Suc.hyps(1))
    show "m = k - Suc n" using Suc.hyps(2) by simp
    show "existsSync fs (candidate d b e n)" by (rule ex)
    show "0 < Suc n" by simp
    show "Suc n \<le> k" using lt by simp
    show "\<forall>j. Suc n \<le> j \<and> j < k \<longrightarrow> existsSync fs (candidate d b e j)"
      using Suc.prems(4) by simp
    show "\<not> existsSync fs (candidate d b e k)" by (rule Suc.prems(5))
  qed
  with Suc.prems show ?case by (simp add: loop_step)
qed

lemma loop_sound:
  assumes "getUniqueFilename_loop fs d b e c n = Some y"
  shows "\<not> existsSync fs y \<and> (y = c \<or> (\<exists>k\<ge>n. y = join d (b @ ''_'' @ digits k @ e)))"
proof (rule getUniqueFilename_loop.raw_induct
    [where P = "\<lambda>fs d b e c n y. \<not> existsSync fs y \<and>
        (y = c \<or> (\<exists>k\<ge>n. y = join d (b @ ''_'' @ digits k @ e)))", OF _ assms])
  fix loop :: "filesystem \<Rightarrow> string \<Rightarrow> string \<Rightarrow> string \<Rightarrow> string \<Rightarrow> nat \<Rightarrow> string option"
  fix fs d b e c n y
  assume ih: "\<And>fs d b e c n y. loop fs d b e c n = Some y \<Longrightarrow>
      \<not> existsSync fs y \<and> (y = c \<or> (\<exists>k\<ge>n. y = join d (b @ ''_'' @ digits k @ e)))"
  assume body: "(if existsSync fs c
      then loop fs d b e (join d (b @ ''_'' @ digits n @ e)) (n + 1)
      else Some c) = Some y"
  show "\<not> existsSync fs y \<and> (y = c \<or> (\<exists>k\<ge>n. y = join d (b @ ''_'' @ digits k @ e)))"
  proof (cases "existsSync fs c")
    case True
    with body have "loop fs d b e (join d (b @ ''_'' @ digits n @ e)) (n + 1) = Some y" by simp
    then have r: "\<not> existsSync fs y \<and>
        (y = join d (b @ ''_'' @ digits n @ e) \<or> (\<exists>k\<ge>n + 1. y = join d (b @ ''_'' @ digits k @ e)))"
      by (rule ih)
    then have "\<exists>k\<ge>n. y = join d (b @ ''_'' @ digits k @ e)"
    proof (elim conjE disjE exE)
      assume "y = join d (b @ ''_'' @ digits n @ e)"
      then show ?thesis by blast
    next
      fix k assume "n + 1 \<le> k" and "y = join d (b @ ''_'' @ digits k @ e)"
      then have "n \<le> k \<and> y = join d (b @ ''_'' @ digits k @ e)" by simp
      then show ?thesis by blast
    qed
    with r show ?thesis by simp
  next
    case False
    with body show ?thesis by simp
  qed
qed

lemma getUniqueFilename_sound:
  assumes "getUniqueFilename fs d b e = Some y"
  shows "\<not> existsSync fs y \<and> (\<exists>k. y = candidate d b e k)"
proof -
  from assms have "\<not> existsSync fs y \<and>
      (y = join d (b @ e) \<or> (\<exists>k\<ge>1. y = join d (b @ ''_'' @ digits k @ e)))"
    unfolding getUniqueFilename_def by (rule loop_sound)
  moreover have "join d (b @ e) = candidate d b e 0" by (simp add: candidate_def)
  moreover have "join d (b @ ''_'' @ digits k @ e) = candidate d b e k" if "k \<ge> 1" for k
    using that by (simp add: candidate_def)
  ultimately show ?thesis by metis
qed

lemma getUniqueFilename_least:
  assumes free: "\<not> existsSync fs (candidate d b e k)"
    and taken: "\<forall>j<k. existsSync fs (candidate d b e j)"
  shows "getUniqueFilename fs d b e = Some (candidate d b e k)"
proof (cases "k = 0")
  case True
  with free show ?thesis by (simp add: getUniqueFilename_def candidate_def loop_stop)
next
  case False
  with taken have "existsSync fs (join d (b @ e))" by (auto simp: candidate_def)
  moreover from taken have "\<forall>j. 1 \<le> j \<and> j < k \<longrightarrow> existsSync fs (candidate d b e j)" by simp
  ultimately show ?thesis
    unfolding getUniqueFilename_def using False free by (intro loop_first_fit) simp_all
qed

lemma getUniqueFilename_returns_iff:
  "(getUniqueFilename fs d b e \<noteq> None) = (\<exists>k. \<not> existsSync fs (candidate d b e k))"
proof
  assume "getUniqueFilename fs d b e \<noteq> None"
  then obtain y where "getUniqueFilename fs d b e = Some y" by blast
  then show "\<exists>k. \<not> existsSync fs (candidate d b e k)"
    using getUniqueFilename_sound by blast
next
  assume "\<exists>k. \<not> existsSync fs (candidate d b e k)"
  then obtain k where k: "\<not> existsSync fs (candidate d b e k)"
    and least: "\<forall>j<k. existsSync fs (candidate d b e j)"
    using exists_least_iff [of "\<lambda>k. \<not> existsSync fs (candidate d b e k)"] by blast
  then show "getUniqueFilename fs d b e \<noteq> None"
    using getUniqueFilename_least by simp
qed

lemma basename_candidate:
  assumes "CHR ''/'' \<notin> set e" and "0 < k"
  shows "basename (candidate d b e k) =
           rev (takeWhile (\<lambda>c. \<not> is_slash c) (rev ((if d = [] then [] else d @ ''/'') @ b))) @
           ''_'' @ digits k @ e"
proof -
  have "CHR ''/'' \<notin> set (''_'' @ digits k @ e)"
    using assms(1) digits_no_slash by simp
  then show ?thesis
    using assms(2) basename_join [of "''_'' @ digits k @ e" d b] by (simp add: candidate_def)
qed

lemma candidate_inj:
  assumes "CHR ''/'' \<notin> set e" and "0 < j" and "0 < k"
    and "candidate d b e j = candidate d b e k"
  shows "j = k"
proof -
  from assms(4) have "basename (candidate d b e j) = basename (candidate d b e k)" by simp
  then have "digits j = digits k"
    by (simp add: basename_candidate [OF assms(1)] assms(2) assms(3))
  then show ?thesis by (rule digits_inj)
qed

lemma finite_has_free_candidate:
  assumes "finite (dom fs)" and "CHR ''/'' \<notin> set e"
  shows "\<exists>k. \<not> existsSync fs (candidate d b e k)"
proof (rule ccontr)
  assume "\<not> ?thesis"
  then have "range (\<lambda>k. candidate d b e (Suc k)) \<subseteq> dom fs"
    by (auto simp: existsSync_def)
  with assms(1) have "finite (range (\<lambda>k. candidate d b e (Suc k)))"
    by (rule rev_finite_subset)
  moreover have "inj (\<lambda>k. candidate d b e (Suc k))"
    by (rule injI) (use candidate_inj [OF assms(2)] in fastforce)
  ultimately show False using finite_imageD by blast
qed

text \<open>
  C5. The collision resolver is first-fit: it returns \<open>dir/baseName.ext\<close> (candidate 0) when
  that path does not exist, and otherwise candidate \<open>k\<close> for the smallest \<open>k \<ge> 1\<close> whose path
  does not exist; the path it returns does not exist; and when \<open>dir/cat.jpg\<close> and
  \<open>dir/cat_1.jpg\<close> exist and \<open>dir/cat_2.jpg\<close> does not, it returns \<open>dir/cat_2.jpg\<close>. Here
  \<open>dir/name\<close> is \<open>path.join(dir, name)\<close>, as in the source.
\<close>

theorem getUniqueFilename_first_fit:
  "(\<not> existsSync fs (candidate dir baseName ext 0) \<longrightarrow>
      getUniqueFilename fs dir baseName ext = Some (candidate dir baseName ext 0)) \<and>
   (1 \<le> k \<and> \<not> existsSync fs (candidate dir baseName ext k) \<and>
    (\<forall>j<k. existsSync fs (candidate dir baseName ext j)) \<longrightarrow>
      getUniqueFilename fs dir baseName ext = Some (candidate dir baseName ext k)) \<and>
   (\<forall>p. getUniqueFilename fs dir baseName ext = Some p \<longrightarrow> \<not> existsSync fs p) \<and>
   (existsSync fs (join dir ''cat.jpg'') \<and> existsSync fs (join dir ''cat_1.jpg'') \<and>
    \<not> existsSync fs (join dir ''cat_2.jpg'') \<longrightarrow>
      getUniqueFilename fs dir ''cat'' ''.jpg'' = Some (join dir ''cat_2.jpg''))"
proof (intro conjI impI allI)
  assume "\<not> existsSync fs (candidate dir baseName ext 0)"
  then show "getUniqueFilename fs dir baseName ext = Some (candidate dir baseName ext 0)"
    by (intro getUniqueFilename_least) simp_all
next
  assume "1 \<le> k \<and> \<not> existsSync fs (candidate dir baseName ext k) \<and>
    (\<forall>j<k. existsSync fs (candidate dir baseName ext j))"
  then show "getUniqueFilename fs dir baseName ext = Some (candidate dir baseName ext k)"
    by (intro getUniqueFilename_least) simp_all
next
  fix p
  assume "getUniqueFilename fs dir baseName ext = Some p"
  then show "\<not> existsSync fs p" using getUniqueFilename_sound by blast
next
  assume a: "existsSync fs (join dir ''cat.jpg'') \<and> existsSync fs (join dir ''cat_1.jpg'') \<and>
    \<not> existsSync fs (join dir ''cat_2.jpg'')"
  have d1: "digits (Suc 0) = ''1''" and d2: "digits 2 = ''2''" by code_simp+
  have c0: "candidate dir ''cat'' ''.jpg'' 0 = join dir ''cat.jpg''"
    and c1: "candidate dir ''cat'' ''.jpg'' 1 = join dir ''cat_1.jpg''"
    and c2: "candidate dir ''cat'' ''.jpg'' 2 = join dir ''cat_2.jpg''"
    by (simp_all add: candidate_def d1 d2)
  have "\<forall>j<2. existsSync fs (candidate dir ''cat'' ''.jpg'' j)"
  proof (intro allI impI)
    fix j :: nat
    assume "j < 2"
    then have "j = 0 \<or> j = 1" by auto
    with a c0 c1 show "existsSync fs (candidate dir ''cat'' ''.jpg'' j)" by auto
  qed
  moreover have "\<not> existsSync fs (candidate dir ''cat'' ''.jpg'' 2)" using a c2 by simp
  ultimately have "getUniqueFilename fs dir ''cat'' ''.jpg'' = Some (candidate dir ''cat'' ''.jpg'' 2)"
    by (intro getUniqueFilename_least) simp_all
  with c2 show "getUniqueFilename fs dir ''cat'' ''.jpg'' = Some (join dir ''cat_2.jpg'')" by simp
qed

theorem getUniqueFilename_first_fit_witness:
  "getUniqueFilename Map.empty ''dir'' ''cat'' ''.jpg'' = Some ''dir/cat.jpg'' \<and>
   getUniqueFilename [''dir/cat.jpg'' \<mapsto> ''one'', ''dir/cat_1.jpg'' \<mapsto> ''two''] ''dir'' ''cat'' ''.jpg''
     = Some ''dir/cat_2.jpg'' \<and>
   \<not> existsSync [''dir/cat.jpg'' \<mapsto> ''one'', ''dir/cat_1.jpg'' \<mapsto> ''two''] ''dir/cat_2.jpg'' \<and>
   getUniqueFilename [''dir/dog.png'' \<mapsto> ''one'', ''dir/dog_1.png'' \<mapsto> ''two''] ''dir'' ''dog'' ''.png''
     = Some ''dir/dog_2.png''"
proof -
  let ?fs = "[''dir/cat.jpg'' \<mapsto> ''one'', ''dir/cat_1.jpg'' \<mapsto> ''two'']"
  let ?gs = "[''dir/dog.png'' \<mapsto> ''one'', ''dir/dog_1.png'' \<mapsto> ''two'']"
  have j0: "join ''dir'' ''cat.jpg'' = ''dir/cat.jpg''"
    and j1: "join ''dir'' ''cat_1.jpg'' = ''dir/cat_1.jpg''"
    and j2: "join ''dir'' ''cat_2.jpg'' = ''dir/cat_2.jpg''"
    by code_simp+
  have k0: "candidate ''dir'' ''cat'' ''.jpg'' 0 = ''dir/cat.jpg''" by code_simp
  have "\<not> existsSync Map.empty (candidate ''dir'' ''cat'' ''.jpg'' 0)"
    by (simp add: existsSync_def)
  then have "getUniqueFilename Map.empty ''dir'' ''cat'' ''.jpg'' = Some (candidate ''dir'' ''cat'' ''.jpg'' 0)"
    by (rule getUniqueFilename_first_fit
          [of Map.empty "''dir''" "''cat''" "''.jpg''" 0, THEN conjunct1, THEN mp])
  then have a: "getUniqueFilename Map.empty ''dir'' ''cat'' ''.jpg'' = Some ''dir/cat.jpg''"
    unfolding k0 .
  have "existsSync ?fs (join ''dir'' ''cat.jpg'') \<and> existsSync ?fs (join ''dir'' ''cat_1.jpg'') \<and>
      \<not> existsSync ?fs (join ''dir'' ''cat_2.jpg'')"
    unfolding j0 j1 j2 by (simp add: existsSync_def)
  then have "getUniqueFilename ?fs ''dir'' ''cat'' ''.jpg'' = Some (join ''dir'' ''cat_2.jpg'')"
    by (rule getUniqueFilename_first_fit
          [of ?fs "''dir''" "''cat''" "''.jpg''" 0, THEN conjunct2, THEN conjunct2, THEN conjunct2, THEN mp])
  then have b: "getUniqueFilename ?fs ''dir'' ''cat'' ''.jpg'' = Some ''dir/cat_2.jpg''"
    unfolding j2 .
  then have c: "\<not> existsSync ?fs ''dir/cat_2.jpg''"
    by (rule getUniqueFilename_first_fit
          [of ?fs "''dir''" "''cat''" "''.jpg''" 0, THEN conjunct2, THEN conjunct2, THEN conjunct1,
           THEN spec, THEN mp])
  have d0: "candidate ''dir'' ''dog'' ''.png'' 0 = ''dir/dog.png''"
    and d1: "candidate ''dir'' ''dog'' ''.png'' 1 = ''dir/dog_1.png''"
    and d2: "candidate ''dir'' ''dog'' ''.png'' 2 = ''dir/dog_2.png''"
    by code_simp+
  have "\<forall>j<2. existsSync ?gs (candidate ''dir'' ''dog'' ''.png'' j)"
  proof (intro allI impI)
    fix j :: nat
    assume "j < 2"
    then have "j = 0 \<or> j = 1" by auto
    moreover have "existsSync ?gs (candidate ''dir'' ''dog'' ''.png'' 0)"
      unfolding d0 by (simp add: existsSync_def)
    moreover have "existsSync ?gs (candidate ''dir'' ''dog'' ''.png'' 1)"
      unfolding d1 by (simp add: existsSync_def)
    ultimately show "existsSync ?gs (candidate ''dir'' ''dog'' ''.png'' j)" by blast
  qed
  moreover have "\<not> existsSync ?gs (candidate ''dir'' ''dog'' ''.png'' 2)"
    unfolding d2 by (simp add: existsSync_def)
  moreover have "(1::nat) \<le> 2" by simp
  ultimately have "1 \<le> (2::nat) \<and> \<not> existsSync ?gs (candidate ''dir'' ''dog'' ''.png'' 2) \<and>
      (\<forall>j<2. existsSync ?gs (candidate ''dir'' ''dog'' ''.png'' j))"
    by blast
  then have "getUniqueFilename ?gs ''dir'' ''dog'' ''.png'' = Some (candidate ''dir'' ''dog'' ''.png'' 2)"
    by (rule getUniqueFilename_first_fit
          [of ?gs "''dir''" "''dog''" "''.png''" 2, THEN conjunct2, THEN conjunct1, THEN mp])
  then have d: "getUniqueFilename ?gs ''dir'' ''dog'' ''.png'' = Some ''dir/dog_2.png''"
    unfolding d2 .
  from a b c d show ?thesis by blast
qed

text \<open>
  C10. The collision resolver returns exactly when some candidate path does not exist: the
  counter has no bound, so any candidate may be the answer, and when every candidate exists
  the loop never ends. In particular it returns in every finite filesystem; there the
  extension is one without a path separator, as every extension \<open>path.extname\<close> yields is,
  so that the candidates are pairwise distinct.
\<close>

theorem getUniqueFilename_terminates:
  "(getUniqueFilename fs dir baseName ext \<noteq> None) =
     (\<exists>k. \<not> existsSync fs (candidate dir baseName ext k)) \<and>
   (finite (dom fs) \<and> CHR ''/'' \<notin> set ext \<longrightarrow> getUniqueFilename fs dir baseName ext \<noteq> None) \<and>
   ((\<forall>k. existsSync fs (candidate dir baseName ext k)) \<longrightarrow>
      getUniqueFilename fs dir baseName ext = None)"
proof (intro conjI impI)
  show iff: "(getUniqueFilename fs dir baseName ext \<noteq> None) =
     (\<exists>k. \<not> existsSync fs (candidate dir baseName ext k))"
    by (rule getUniqueFilename_returns_iff)
  {
    assume "finite (dom fs) \<and> CHR ''/'' \<notin> set ext"
    then have "\<exists>k. \<not> existsSync fs (candidate dir baseName ext k)"
      using finite_has_free_candidate by blast
    with iff show "getUniqueFilename fs dir baseName ext \<noteq> None" by simp
  }
  {
    assume "\<forall>k. existsSync fs (candidate dir baseName ext k)"
    with iff show "getUniqueFilename fs dir baseName ext = None" by simp
  }
qed

theorem getUniqueFilename_terminates_witness:
  "getUniqueFilename [''dir/cat.jpg'' \<mapsto> ''one''] ''dir'' ''cat'' ''.jpg'' \<noteq> None \<and>
   getUniqueFilename (\<lambda>p. Some ''one'') ''dir'' ''cat'' ''.jpg'' = None"
proof -
  have "finite (dom [''dir/cat.jpg'' \<mapsto> ''one'']) \<and> CHR ''/'' \<notin> set ''.jpg''" by simp
  then have a: "getUniqueFilename [''dir/cat.jpg'' \<mapsto> ''one''] ''dir'' ''cat'' ''.jpg'' \<noteq> None"
    using getUniqueFilename_terminates [of "[''dir/cat.jpg'' \<mapsto> ''one'']" "''dir''" "''cat''" "''.jpg''"]
    by blast
  have "\<forall>k. existsSync (\<lambda>p. Some ''one'') (candidate ''dir'' ''cat'' ''.jpg'' k)"
    by (simp add: existsSync_def)
  then have b: "getUniqueFilename (\<lambda>p. Some ''one'') ''dir'' ''cat'' ''.jpg'' = None"
    using getUniqueFilename_terminates [of "\<lambda>p. Some ''one''" "''dir''" "''cat''" "''.jpg''"]
    by blast
  from a b show ?thesis by simp
qed

section \<open>Properties of the image preprocessor\<close>

lemma apply_changes_finite: "finite (dom fs) \<Longrightarrow> finite (dom (apply_changes fs changes))"
  unfolding apply_changes_def
  by (induction changes arbitrary: fs) (auto split: prod.splits)

lemma apply_changes_untouched: "p \<notin> fst ` set changes \<Longrightarrow> apply_changes fs changes p = fs p"
  unfolding apply_changes_def
  by (induction changes arbitrary: fs) (auto split: prod.splits)


lemma preprocessImage_frame:
  "p \<noteq> tmpFile env \<Longrightarrow> p \<notin> touched env fs imagePath \<Longrightarrow>
     snd (preprocessImage env fs imagePath) p = fs p"
  by (auto simp: preprocessImage_def execSync_def existsSync_def unlinkSync_def Let_def touched_def
      apply_changes_untouched split: prod.splits)

lemma preprocessImage_finite:
  "finite (dom fs) \<Longrightarrow> finite (dom (snd (preprocessImage env fs imagePath)))"
  by (auto simp: preprocessImage_def execSync_def existsSync_def unlinkSync_def Let_def
      apply_changes_finite split: prod.splits)



section \<open>Properties of the reachability probe\<close>

text \<open>
  C7. The reachability probe never raises: it returns a boolean for every outcome of its
  fetch, \<open>true\<close> exactly when a response arrived (before the timeout aborted the fetch) and
  its status is 2xx, \<open>false\<close> on a rejected fetch (network error, timeout) and on every other
  status.
\<close>

theorem checkServerConnection_true_iff:
  "checkServerConnection fetched =
     (\<exists>r. fetched = Inr r \<and> 200 \<le> http_status r \<and> http_status r \<le> 299)"
  by (cases fetched) (auto simp: checkServerConnection_def ok_def)

theorem checkServerConnection_true_iff_witness:
  "checkServerConnection (Inr \<lparr>http_status = 200, statusText = ''OK'', json = Inl (JsError '''')\<rparr>) \<and>
   \<not> checkServerConnection (Inr \<lparr>http_status = 404, statusText = ''Not Found'', json = Inl (JsError '''')\<rparr>) \<and>
   \<not> checkServerConnection (Inl (JsError ''The operation was aborted due to timeout''))"
  using checkServerConnection_true_iff
      [of "Inr \<lparr>http_status = 200, statusText = ''OK'', json = Inl (JsError '''')\<rparr>"]
    checkServerConnection_true_iff
      [of "Inr \<lparr>http_status = 404, statusText = ''Not Found'', json = Inl (JsError '''')\<rparr>"]
    checkServerConnection_true_iff [of "Inl (JsError ''The operation was aborted due to timeout'')"]
  by simp

section \<open>Properties of the chat completion\<close>

lemma suggestedName_first_content: "suggestedName data = map_option trim (first_content data)"
  by (simp add: suggestedName_def first_content_def
      split: option.splits list.splits Option.bind_splits)

text \<open>
  C6, as claimed: the call fails exactly when the HTTP call fails or returns non-2xx, or the
  parsed body has an error field, or the first choice's content is absent or blank. It does
  not hold: a 2xx response whose body cannot be read as JSON makes \<open>response.json()\<close> reject,
  and the call fails with that error.
\<close>

theorem describeImage_unreadable_body:
  "describeImage (Inr \<lparr>http_status = 200, statusText = ''OK'',
                       json = Inl (JsError ''Unexpected token < in JSON at position 0'')\<rparr>)
     = Inl (JsError ''Unexpected token < in JSON at position 0'') \<and>
   \<not> claimed_failure (Inr \<lparr>http_status = 200, statusText = ''OK'',
                             json = Inl (JsError ''Unexpected token < in JSON at position 0'')\<rparr>)"
  by (simp add: describeImage_def claimed_failure_def ok_def)

text \<open>
  C6, amended: the call fails exactly when the fetch is rejected, or the response is not 2xx,
  or the body cannot be read as JSON, or the parsed body has an error field, or the first
  choice's content is absent or trims to the empty string; the error tells which. Otherwise
  it returns the content, trimmed and not sanitized.
\<close>

theorem describeImage_outcome:
  "(isl (describeImage fetched) =
      (claimed_failure fetched \<or> (\<exists>r e. fetched = Inr r \<and> ok r \<and> json r = Inl e))) \<and>
   (\<forall>e. fetched = Inl e \<longrightarrow> describeImage fetched = Inl e) \<and>
   (\<forall>r. fetched = Inr r \<and> \<not> ok r \<longrightarrow>
      describeImage fetched = Inl (JsError (''API request failed: '' @ statusText r))) \<and>
   (\<forall>r e. fetched = Inr r \<and> ok r \<and> json r = Inl e \<longrightarrow> describeImage fetched = Inl e) \<and>
   (\<forall>r data m. fetched = Inr r \<and> ok r \<and> json r = Inr data \<and> api_error data = Some m \<longrightarrow>
      describeImage fetched = Inl (JsError (''LM Studio error: '' @ m))) \<and>
   (\<forall>r data. fetched = Inr r \<and> ok r \<and> json r = Inr data \<and> api_error data = None \<and>
      (first_content data = None \<or> (\<exists>t. first_content data = Some t \<and> trim t = [])) \<longrightarrow>
      describeImage fetched = Inl (JsError ''No name suggestion returned'')) \<and>
   (\<forall>r data t. fetched = Inr r \<and> ok r \<and> json r = Inr data \<and> api_error data = None \<and>
      first_content data = Some t \<and> trim t \<noteq> [] \<longrightarrow>
      describeImage fetched = Inr (trim t))"
  by (auto simp: describeImage_def claimed_failure_def suggestedName_first_content
      split: sum.splits option.splits)

theorem describeImage_outcome_witness:
  "describeImage (Inl (JsError ''fetch failed'')) = Inl (JsError ''fetch failed'') \<and>
   describeImage (Inr \<lparr>http_status = 500, statusText = ''Internal Server Error'',
                       json = Inl (JsError ''no body'')\<rparr>)
     = Inl (JsError ''API request failed: Internal Server Error'') \<and>
   describeImage (Inr \<lparr>http_status = 200, statusText = ''OK'',
                       json = Inr \<lparr>choices = None, api_error = Some ''model not loaded''\<rparr>\<rparr>)
     = Inl (JsError ''LM Studio error: model not loaded'') \<and>
   describeImage (Inr \<lparr>http_status = 200, statusText = ''OK'',
                       json = Inr \<lparr>choices = Some [], api_error = None\<rparr>\<rparr>)
     = Inl (JsError ''No name suggestion returned'') \<and>
   describeImage (Inr \<lparr>http_status = 200, statusText = ''OK'',
                       json = Inr \<lparr>choices = Some [\<lparr>message_of = Some \<lparr>role = ''assistant'',
                                          content = Some '' red_barn! ''\<rparr>, finish_reason = ''stop''\<rparr>],
                                    api_error = None\<rparr>\<rparr>)
     = Inr ''red_barn!''"
proof -
  let ?r500 = "\<lparr>http_status = 500, statusText = ''Internal Server Error'', json = Inl (JsError ''no body'')\<rparr>"
  let ?dErr = "\<lparr>choices = None, api_error = Some ''model not loaded''\<rparr>"
  let ?dNone = "\<lparr>choices = Some [], api_error = None\<rparr>"
  let ?dGood = "\<lparr>choices = Some [\<lparr>message_of = Some \<lparr>role = ''assistant'',
      content = Some '' red_barn! ''\<rparr>, finish_reason = ''stop''\<rparr>], api_error = None\<rparr>"
  let ?ok = "\<lambda>d. \<lparr>http_status = 200, statusText = ''OK'', json = Inr d\<rparr>"
  have t: "trim '' red_barn! '' = ''red_barn!''" by code_simp
  have a: "describeImage (Inl (JsError ''fetch failed'')) = Inl (JsError ''fetch failed'')"
    by (rule describeImage_outcome [THEN conjunct2, THEN conjunct1, THEN spec, THEN mp]) simp
  have "describeImage (Inr ?r500) = Inl (JsError (''API request failed: '' @ statusText ?r500))"
    by (rule describeImage_outcome [THEN conjunct2, THEN conjunct2, THEN conjunct1, THEN spec, THEN mp])
      (simp add: ok_def)
  then have b: "describeImage (Inr ?r500) = Inl (JsError ''API request failed: Internal Server Error'')"
    by simp
  have "describeImage (Inr (?ok ?dErr)) = Inl (JsError (''LM Studio error: '' @ ''model not loaded''))"
    by (rule describeImage_outcome
          [THEN conjunct2, THEN conjunct2, THEN conjunct2, THEN conjunct2, THEN conjunct1,
           rule_format, of _ "?ok ?dErr" ?dErr])
      (simp add: ok_def)
  then have c: "describeImage (Inr (?ok ?dErr)) = Inl (JsError ''LM Studio error: model not loaded'')"
    by simp
  have d: "describeImage (Inr (?ok ?dNone)) = Inl (JsError ''No name suggestion returned'')"
    by (rule describeImage_outcome
          [THEN conjunct2, THEN conjunct2, THEN conjunct2, THEN conjunct2, THEN conjunct2,
           THEN conjunct1, rule_format, of _ "?ok ?dNone" ?dNone])
      (simp add: ok_def first_content_def)
  have "describeImage (Inr (?ok ?dGood)) = Inr (trim '' red_barn! '')"
    by (rule describeImage_outcome
          [THEN conjunct2, THEN conjunct2, THEN conjunct2, THEN conjunct2, THEN conjunct2,
           THEN conjunct2, rule_format, of _ "?ok ?dGood" ?dGood])
      (simp add: ok_def first_content_def t)
  then have e: "describeImage (Inr (?ok ?dGood)) = Inr ''red_barn!''" unfolding t .
  show ?thesis
    by (intro conjI) (rule a, rule b, rule c, rule d, rule e)
qed

section \<open>Properties of the rename orchestrator\<close>

lemma basename_no_slash: "CHR ''/'' \<notin> set (basename p)"
  unfolding basename_def using set_takeWhileD by (fastforce simp: is_slash_def)

lemma extname_no_slash: "CHR ''/'' \<notin> set (extname p)"
proof -
  have "set (rev (takeWhile (\<lambda>c. c \<noteq> CHR ''.'') (rev (basename p)))) \<subseteq> set (basename p)"
    by (auto dest: set_takeWhileD)
  then have "set (extname p) \<subseteq> insert CHR ''.'' (set (basename p))"
    by (auto simp: extname_def Let_def)
  with basename_no_slash [of p] show ?thesis by auto
qed

lemma lower_char_slash: "lower_char c = CHR ''/'' \<Longrightarrow> c = CHR ''/''"
proof (rule ccontr)
  assume l: "lower_char c = CHR ''/''" and n: "c \<noteq> CHR ''/''"
  then have up: "(65 \<le> code c \<and> code c \<le> 90) \<or> (192 \<le> code c \<and> code c \<le> 222 \<and> code c \<noteq> 215)"
    and "char_of (code c + 32) = CHR ''/''"
    by (auto simp: lower_char_def split: if_splits)
  then have "(of_char (char_of (code c + 32)) :: nat) = of_char CHR ''/''" by simp
  then have "(code c + 32) mod 256 = 47" by simp
  with up show False by auto
qed

lemma toLowerCase_no_slash: "CHR ''/'' \<notin> set s \<Longrightarrow> CHR ''/'' \<notin> set (toLowerCase s)"
proof
  assume n: "CHR ''/'' \<notin> set s" and "CHR ''/'' \<in> set (toLowerCase s)"
  then obtain x where "x \<in> set s" and "lower_char x = CHR ''/''"
    by (auto simp: toLowerCase_def)
  with n show False using lower_char_slash by blast
qed

lemma sanitizeFilename_no_slash: "CHR ''/'' \<notin> set (sanitizeFilename raw)"
  using sanitizeFilename_allowed [of "CHR ''/''" raw] by auto

lemma getImageName_snd: "snd (getImageName env fs p m) = snd (preprocessImage env fs p)"
  by (simp add: getImageName_def split: prod.splits sum.splits)

lemma getImageName_frame:
  "q \<noteq> tmpFile env \<Longrightarrow> q \<notin> touched env fs p \<Longrightarrow> snd (getImageName env fs p m) q = fs q"
  by (simp add: getImageName_snd preprocessImage_frame)

lemma getImageName_finite: "finite (dom fs) \<Longrightarrow> finite (dom (snd (getImageName env fs p m)))"
  by (simp add: getImageName_snd preprocessImage_finite)

text \<open>The five ways through \<open>renameImage\<close>.\<close>

lemma renameImage_Inl:
  "getImageName env fs p m = (Inl e, fs1) \<Longrightarrow>
   renameImage env fs p m =
     Some (\<lparr>success = False, oldName = basename p, newName = None, error = Some (message e)\<rparr>, fs1)"
  by (simp add: renameImage_def Let_def)

lemma renameImage_empty:
  "getImageName env fs p m = (Inr s, fs1) \<Longrightarrow> sanitizeFilename s = [] \<Longrightarrow>
   renameImage env fs p m =
     Some (\<lparr>success = False, oldName = basename p, newName = None,
            error = Some ''Empty name returned''\<rparr>, fs1)"
  by (simp add: renameImage_def Let_def)

lemma renameImage_unchanged:
  "getImageName env fs p m = (Inr s, fs1) \<Longrightarrow> sanitizeFilename s \<noteq> [] \<Longrightarrow>
   getUniqueFilename fs1 (dirname p) (sanitizeFilename s) (toLowerCase (extname p)) = Some newPath \<Longrightarrow>
   basename p = basename newPath \<Longrightarrow>
   renameImage env fs p m =
     Some (\<lparr>success = True, oldName = basename p, newName = Some (basename newPath),
            error = Some ''Name unchanged''\<rparr>, fs1)"
  by (simp add: renameImage_def Let_def)

lemma renameImage_refused:
  "getImageName env fs p m = (Inr s, fs1) \<Longrightarrow> sanitizeFilename s \<noteq> [] \<Longrightarrow>
   getUniqueFilename fs1 (dirname p) (sanitizeFilename s) (toLowerCase (extname p)) = Some newPath \<Longrightarrow>
   basename p \<noteq> basename newPath \<Longrightarrow>
   renameSync (rename_refusal env) fs1 p newPath = Inl e \<Longrightarrow>
   renameImage env fs p m =
     Some (\<lparr>success = False, oldName = basename p, newName = None, error = Some (message e)\<rparr>, fs1)"
  by (simp add: renameImage_def Let_def)

lemma renameImage_renamed:
  "getImageName env fs p m = (Inr s, fs1) \<Longrightarrow> sanitizeFilename s \<noteq> [] \<Longrightarrow>
   getUniqueFilename fs1 (dirname p) (sanitizeFilename s) (toLowerCase (extname p)) = Some newPath \<Longrightarrow>
   basename p \<noteq> basename newPath \<Longrightarrow>
   renameSync (rename_refusal env) fs1 p newPath = Inr fs2 \<Longrightarrow>
   renameImage env fs p m =
     Some (\<lparr>success = True, oldName = basename p, newName = Some (basename newPath),
            error = None\<rparr>, fs2)"
  by (simp add: renameImage_def Let_def)

lemma renameImage_resolves:
  assumes "finite (dom fs1)"
  shows "\<exists>newPath. getUniqueFilename fs1 (dirname p) c (toLowerCase (extname p)) = Some newPath"
proof -
  have "CHR ''/'' \<notin> set (toLowerCase (extname p))"
    by (intro toLowerCase_no_slash extname_no_slash)
  with assms have "\<exists>k. \<not> existsSync fs1 (candidate (dirname p) c (toLowerCase (extname p)) k)"
    by (rule finite_has_free_candidate)
  then have "getUniqueFilename fs1 (dirname p) c (toLowerCase (extname p)) \<noteq> None"
    using getUniqueFilename_returns_iff by blast
  then show ?thesis by blast
qed

lemma renameSync_finite:
  "renameSync refusal fs a b = Inr fs2 \<Longrightarrow> finite (dom fs) \<Longrightarrow> finite (dom fs2)"
  by (auto simp: renameSync_def split: option.splits)

lemma renameImage_total:
  assumes "finite (dom fs)"
  shows "\<exists>r fs'. renameImage env fs p m = Some (r, fs') \<and> finite (dom fs')"
proof -
  obtain res fs1 where g: "getImageName env fs p m = (res, fs1)" by (cases "getImageName env fs p m")
  have fin: "finite (dom fs1)" using getImageName_finite [OF assms, of env p m] g by simp
  show ?thesis
  proof (cases res)
    case (Inl e)
    with g fin show ?thesis by (simp add: renameImage_Inl)
  next
    case (Inr s)
    show ?thesis
    proof (cases "sanitizeFilename s = []")
      case True
      with g Inr fin show ?thesis by (simp add: renameImage_empty)
    next
      case False
      obtain newPath where
        u: "getUniqueFilename fs1 (dirname p) (sanitizeFilename s) (toLowerCase (extname p)) = Some newPath"
        using renameImage_resolves [OF fin] by blast
      show ?thesis
      proof (cases "basename p = basename newPath")
        case True
        with g Inr False u fin show ?thesis by (simp add: renameImage_unchanged)
      next
        case differ: False
        show ?thesis
        proof (cases "renameSync (rename_refusal env) fs1 p newPath")
          case (Inl e)
          with g Inr False u differ fin show ?thesis
            using renameImage_refused [of env fs p m s fs1 newPath e] by simp
        next
          case r: (Inr fs2)
          then have "finite (dom fs2)" using fin by (rule renameSync_finite)
          with g Inr False u differ r show ?thesis
            using renameImage_renamed [of env fs p m s fs1 newPath fs2] by simp
        qed
      qed
    qed
  qed
qed

text \<open>
  When the run of the conversion command leaves the image alone and the scratch path is not
  the image's own path, \<open>renameImage\<close> keeps its failures to itself: it returns an outcome,
  each failing step gives \<open>success = false\<close> with the error's message, and an outcome with
  \<open>success = false\<close> leaves the file at its path with its content.
\<close>

lemma renameImage_failures_when_confined:
  assumes "finite (dom fs)" and "fs imagePath = Some bytes" and "tmpFile env \<noteq> imagePath"
    and "imagePath \<notin> touched env fs imagePath"
  shows "\<exists>r fs'. renameImage env fs imagePath model = Some (r, fs') \<and>
     (\<not> success r \<longrightarrow> (\<exists>msg. error r = Some msg) \<and> fs' imagePath = Some bytes) \<and>
     (fs' imagePath \<noteq> Some bytes \<longrightarrow> success r \<and> error r = None) \<and>
     (\<forall>e. fst (getImageName env fs imagePath model) = Inl e \<longrightarrow>
        \<not> success r \<and> error r = Some (message e)) \<and>
     (\<forall>s. fst (getImageName env fs imagePath model) = Inr s \<and> sanitizeFilename s = [] \<longrightarrow>
        \<not> success r \<and> error r = Some ''Empty name returned'') \<and>
     (\<forall>s newPath msg.
        fst (getImageName env fs imagePath model) = Inr s \<and> sanitizeFilename s \<noteq> [] \<and>
        getUniqueFilename (snd (getImageName env fs imagePath model)) (dirname imagePath)
          (sanitizeFilename s) (toLowerCase (extname imagePath)) = Some newPath \<and>
        basename newPath \<noteq> basename imagePath \<and> rename_refusal env = Some msg \<longrightarrow>
        \<not> success r \<and> error r = Some msg)"
proof -
  obtain res fs1 where g: "getImageName env fs imagePath model = (res, fs1)"
    by (cases "getImageName env fs imagePath model")
  have fin: "finite (dom fs1)"
    using getImageName_finite [OF assms(1), of env imagePath model] g by simp
  have kept: "fs1 imagePath = Some bytes"
    using getImageName_frame [of imagePath env fs imagePath model] assms(2,3,4) g by simp
  show ?thesis
  proof (cases res)
    case (Inl e)
    with g have "renameImage env fs imagePath model =
        Some (\<lparr>success = False, oldName = basename imagePath, newName = None,
               error = Some (message e)\<rparr>, fs1)"
      by (simp add: renameImage_Inl)
    with g Inl kept show ?thesis by simp
  next
    case (Inr s)
    show ?thesis
    proof (cases "sanitizeFilename s = []")
      case True
      with g Inr have "renameImage env fs imagePath model =
          Some (\<lparr>success = False, oldName = basename imagePath, newName = None,
                 error = Some ''Empty name returned''\<rparr>, fs1)"
        by (simp add: renameImage_empty)
      with g Inr True kept show ?thesis by simp
    next
      case False
      obtain newPath where u: "getUniqueFilename fs1 (dirname imagePath) (sanitizeFilename s)
          (toLowerCase (extname imagePath)) = Some newPath"
        using renameImage_resolves [OF fin] by blast
      show ?thesis
      proof (cases "basename imagePath = basename newPath")
        case True
        with g Inr False u have "renameImage env fs imagePath model =
            Some (\<lparr>success = True, oldName = basename imagePath, newName = Some (basename newPath),
                   error = Some ''Name unchanged''\<rparr>, fs1)"
          by (simp add: renameImage_unchanged)
        with g Inr False u True kept show ?thesis by simp
      next
        case differ: False
        show ?thesis
        proof (cases "rename_refusal env")
          case (Some msg)
          then have "renameSync (rename_refusal env) fs1 imagePath newPath = Inl (JsError msg)"
            by (simp add: renameSync_def)
          with g Inr False u differ have "renameImage env fs imagePath model =
              Some (\<lparr>success = False, oldName = basename imagePath, newName = None,
                     error = Some (message (JsError msg))\<rparr>, fs1)"
            using renameImage_refused [of env fs imagePath model s fs1 newPath "JsError msg"] by simp
          with g Inr False u differ Some kept show ?thesis by simp
        next
          case None
          with kept have "renameSync (rename_refusal env) fs1 imagePath newPath =
              Inr ((fs1(imagePath := None))(newPath \<mapsto> bytes))"
            by (simp add: renameSync_def)
          with g Inr False u differ have "renameImage env fs imagePath model =
              Some (\<lparr>success = True, oldName = basename imagePath, newName = Some (basename newPath),
                     error = None\<rparr>, (fs1(imagePath := None))(newPath \<mapsto> bytes))"
            using renameImage_renamed [of env fs imagePath model s fs1 newPath
                "(fs1(imagePath := None))(newPath \<mapsto> bytes)"] by simp
          with g Inr False u differ None show ?thesis by simp
        qed
      qed
    qed
  qed
qed

lemma renameImage_failure_frame:
  assumes "renameImage env fs p m = Some (r, fs')" and "\<not> success r"
    and "q \<noteq> tmpFile env" and "q \<notin> touched env fs p"
  shows "fs' q = fs q"
proof -
  from assms(1,2) have "fs' = snd (getImageName env fs p m)"
    by (auto simp: renameImage_def Let_def split: prod.splits sum.splits option.splits if_splits)
  then show ?thesis using assms(3,4) by (simp add: getImageName_frame)
qed

text \<open>
  C4. The claim: \<open>renameImage\<close> never propagates an exception, every failure becomes an
  outcome with \<open>success = false\<close> and the error's message, and an outcome with
  \<open>success = false\<close> leaves the original file at its path with its content. The first two
  parts hold. The last one does not: the command line of the conversion holds the image
  path between double quotes, where the shell still runs a command substitution. For the
  file \<open>/d/$(rm -f *.png).png\<close>, with the shell started in \<open>/d\<close>, the command removes the
  file, the conversion fails, and the outcome is \<open>success = false\<close> with the file gone.
\<close>

theorem renameImage_failure_loses_file:
  "sipsCommand ''/d/$(rm -f *.png).png'' ''/tmp/raycast-lmstudio-7.jpg'' =
     ''sips --resampleHeightWidthMax 512 --setProperty format jpeg --setProperty formatOptions 80 '' @
     [CHR 0x22] @ ''/d/$(rm -f *.png).png'' @ [CHR 0x22] @ '' --out '' @
     [CHR 0x22] @ ''/tmp/raycast-lmstudio-7.jpg'' @ [CHR 0x22] \<and>
   [''/d/$(rm -f *.png).png'' \<mapsto> ''IMG'', ''/d/b.png'' \<mapsto> ''B''] ''/d/$(rm -f *.png).png''
     = Some ''IMG'' \<and>
   map_option fst
     (renameImage
        \<lparr>tmpdir = ''/tmp'', now = 7,
         shell = (\<lambda>c f. if contains ''$(rm -f *.png)'' c
            then (Some ''Command failed'', [(''/d/$(rm -f *.png).png'', None), (''/d/b.png'', None)])
            else (None, [(''/tmp/raycast-lmstudio-7.jpg'', Some ''JPEG'')])),
         fetch = (\<lambda>q. Inr \<lparr>http_status = 200, statusText = ''OK'',
           json = Inr \<lparr>choices = Some [\<lparr>message_of = Some \<lparr>role = ''assistant'',
                           content = Some ''Red Barn''\<rparr>, finish_reason = ''stop''\<rparr>],
                         api_error = None\<rparr>\<rparr>),
         rename_refusal = None\<rparr>
        [''/d/$(rm -f *.png).png'' \<mapsto> ''IMG'', ''/d/b.png'' \<mapsto> ''B'']
        ''/d/$(rm -f *.png).png'' ''llava'')
     = Some \<lparr>success = False, oldName = ''$(rm -f *.png).png'', newName = None,
              error = Some ''Command failed''\<rparr> \<and>
   map_option (\<lambda>(r, fs'). fs' ''/d/$(rm -f *.png).png'')
     (renameImage
        \<lparr>tmpdir = ''/tmp'', now = 7,
         shell = (\<lambda>c f. if contains ''$(rm -f *.png)'' c
            then (Some ''Command failed'', [(''/d/$(rm -f *.png).png'', None), (''/d/b.png'', None)])
            else (None, [(''/tmp/raycast-lmstudio-7.jpg'', Some ''JPEG'')])),
         fetch = (\<lambda>q. Inr \<lparr>http_status = 200, statusText = ''OK'',
           json = Inr \<lparr>choices = Some [\<lparr>message_of = Some \<lparr>role = ''assistant'',
                           content = Some ''Red Barn''\<rparr>, finish_reason = ''stop''\<rparr>],
                         api_error = None\<rparr>\<rparr>),
         rename_refusal = None\<rparr>
        [''/d/$(rm -f *.png).png'' \<mapsto> ''IMG'', ''/d/b.png'' \<mapsto> ''B'']
        ''/d/$(rm -f *.png).png'' ''llava'')
     = Some None"
  by code_simp

lemma basename_join_plain: "plain_segment s \<Longrightarrow> basename (join a s) = s"
proof -
  assume p: "plain_segment s"
  then have ne: "s \<noteq> []" by (simp add: plain_segment_def)
  show ?thesis
  proof (cases "a = []")
    case True
    with ne have "join a s = normalize ([] @ s)" by (simp add: join_def)
    then show ?thesis using basename_normalize_plain [OF p, of "[]"] by simp
  next
    case False
    with ne have "join a s = normalize ((a @ ''/'') @ s)" by (simp add: join_def)
    then show ?thesis using basename_normalize_plain [OF p, of "a @ ''/''"] by simp
  qed
qed

lemma plain_clean_segment:
  assumes "c \<noteq> []" and "\<forall>x\<in>set c. allowed x" and "CHR ''/'' \<notin> set t"
  shows "plain_segment (c @ t)"
proof -
  from assms(1) obtain x xs where c: "c = x # xs" by (cases c) auto
  with assms(2) have "allowed x" by simp
  then have "x \<noteq> CHR ''.''" by auto
  with c have "c @ t \<noteq> ''.''" "c @ t \<noteq> ''..''" by auto
  moreover from assms(2) have "CHR ''/'' \<notin> set c" by auto
  ultimately show ?thesis using assms(1,3) by (simp add: plain_segment_def)
qed

lemma basename_candidate_clean:
  assumes "c \<noteq> []" and "\<forall>x\<in>set c. allowed x" and "CHR ''/'' \<notin> set e"
  shows "candidate d c e k = join d (basename (candidate d c e k))"
proof -
  have "plain_segment (c @ e)"
    using assms by (rule plain_clean_segment)
  moreover have "plain_segment (c @ ''_'' @ digits k @ e)"
    using assms(1,2) by (rule plain_clean_segment) (use assms(3) digits_no_slash in simp)
  ultimately show ?thesis
    by (simp add: candidate_def basename_join_plain)
qed

text \<open>
  For a file that exists, at a path that \<open>path.join\<close> of its directory and its name gives
  back, and that the conversion leaves alone, the branch for the unchanged name is never
  taken.
\<close>

lemma renameImage_never_unchanged:
  assumes "fs imagePath = Some bytes" and "tmpFile env \<noteq> imagePath"
    and "imagePath \<notin> touched env fs imagePath"
    and "join (dirname imagePath) (basename imagePath) = imagePath"
    and "renameImage env fs imagePath model = Some (r, fs')"
  shows "\<not> (success r \<and> error r = Some ''Name unchanged'')"
proof
  assume u: "success r \<and> error r = Some ''Name unchanged''"
  obtain res fs1 where g: "getImageName env fs imagePath model = (res, fs1)"
    by (cases "getImageName env fs imagePath model")
  have kept: "fs1 imagePath = Some bytes"
    using getImageName_frame [of imagePath env fs imagePath model] assms(1,2,3) g by simp
  from assms(5) u g obtain s newPath where
    clean: "sanitizeFilename s \<noteq> []"
    and uniq: "getUniqueFilename fs1 (dirname imagePath) (sanitizeFilename s)
        (toLowerCase (extname imagePath)) = Some newPath"
    and same: "basename imagePath = basename newPath"
    by (auto simp: renameImage_def Let_def split: sum.splits option.splits if_splits)
  from uniq obtain k where free: "\<not> existsSync fs1 newPath"
    and k: "newPath = candidate (dirname imagePath) (sanitizeFilename s)
        (toLowerCase (extname imagePath)) k"
    using getUniqueFilename_sound by blast
  have "\<forall>x\<in>set (sanitizeFilename s). allowed x"
    using sanitizeFilename_allowed by blast
  moreover have "CHR ''/'' \<notin> set (toLowerCase (extname imagePath))"
    by (intro toLowerCase_no_slash extname_no_slash)
  ultimately have "newPath = join (dirname imagePath) (basename newPath)"
    unfolding k using clean by (intro basename_candidate_clean)
  then have "newPath = join (dirname imagePath) (basename imagePath)" unfolding same .
  also have "\<dots> = imagePath" by (rule assms(4))
  finally have "newPath = imagePath" .
  with free kept show False by (simp add: existsSync_def)
qed

text \<open>
  C1. The claim: when the file exists and the suggestion sanitizes to the file's current
  base name, \<open>renameImage\<close> changes nothing in the filesystem and reports
  \<open>success = true\<close> with the note that the name is unchanged and \<open>newName = oldName\<close>. The
  source has the branch for it (\<open>oldName === newName\<close>), but the collision resolver takes the
  file itself for a collision: for \<open>/d/cat.jpg\<close> and the suggestion \<open>cat\<close> it answers
  \<open>/d/cat_1.jpg\<close>, and the file is renamed. The lemma above says so for every existing file.
\<close>

theorem renameImage_same_name_renames:
  "map_option fst
     (renameImage
        \<lparr>tmpdir = ''/tmp'', now = 7, shell = (\<lambda>c f. (None, [(''/tmp/raycast-lmstudio-7.jpg'', Some ''JPEG'')])),
         fetch = (\<lambda>q. Inr \<lparr>http_status = 200, statusText = ''OK'',
           json = Inr \<lparr>choices = Some [\<lparr>message_of = Some \<lparr>role = ''assistant'',
                           content = Some ''cat''\<rparr>, finish_reason = ''stop''\<rparr>],
                         api_error = None\<rparr>\<rparr>),
         rename_refusal = None\<rparr>
        [''/d/cat.jpg'' \<mapsto> ''IMG''] ''/d/cat.jpg'' ''llava'')
     = Some \<lparr>success = True, oldName = ''cat.jpg'', newName = Some ''cat_1.jpg'', error = None\<rparr> \<and>
   map_option (\<lambda>(r, fs'). (fs' ''/d/cat.jpg'', fs' ''/d/cat_1.jpg''))
     (renameImage
        \<lparr>tmpdir = ''/tmp'', now = 7, shell = (\<lambda>c f. (None, [(''/tmp/raycast-lmstudio-7.jpg'', Some ''JPEG'')])),
         fetch = (\<lambda>q. Inr \<lparr>http_status = 200, statusText = ''OK'',
           json = Inr \<lparr>choices = Some [\<lparr>message_of = Some \<lparr>role = ''assistant'',
                           content = Some ''cat''\<rparr>, finish_reason = ''stop''\<rparr>],
                         api_error = None\<rparr>\<rparr>),
         rename_refusal = None\<rparr>
        [''/d/cat.jpg'' \<mapsto> ''IMG''] ''/d/cat.jpg'' ''llava'')
     = Some (None, Some ''IMG'') \<and>
   sanitizeFilename ''cat'' @ toLowerCase (extname ''/d/cat.jpg'') = basename ''/d/cat.jpg'' \<and>
   join (dirname ''/d/cat.jpg'') (basename ''/d/cat.jpg'') = ''/d/cat.jpg''"
  by code_simp

section \<open>Properties of the batch runner\<close>

lemma outcomes_total:
  "finite (dom fs) \<Longrightarrow>
     \<exists>rs fs'. outcomes world model i fs images = Some (rs, fs') \<and> finite (dom fs') \<and>
       length rs = length images"
proof (induction images arbitrary: i fs)
  case Nil
  then show ?case by simp
next
  case (Cons img rest)
  obtain r fs1 where r: "renameImage (world i) fs (path img) model = Some (r, fs1)"
    and fin: "finite (dom fs1)"
    using renameImage_total [OF Cons.prems] by blast
  obtain rs fs' where "outcomes world model (Suc i) fs1 rest = Some (rs, fs')"
    and "finite (dom fs')" and "length rs = length rest"
    using Cons.IH [OF fin] by blast
  with r show ?case by simp
qed

lemma outcomes_length:
  "outcomes world model i fs images = Some (rs, fs') \<Longrightarrow> length rs = length images"
  by (induction images arbitrary: i fs rs) (auto split: option.splits prod.splits)

lemma outcomes_append:
  "outcomes world model i fs (xs @ ys) =
     (case outcomes world model i fs xs of
        None \<Rightarrow> None
      | Some (rs, fs1) \<Rightarrow>
          (case outcomes world model (i + length xs) fs1 ys of
             None \<Rightarrow> None
           | Some (rs', fs2) \<Rightarrow> Some (rs @ rs', fs2)))"
  by (induction xs arbitrary: i fs) (auto split: option.splits prod.splits)

text \<open>The loop from index \<open>i\<close> on does what \<open>outcomes\<close> says for the images left.\<close>

lemma processImages_loop_outcomes:
  "i \<le> length images \<Longrightarrow> length (results st) = length images \<Longrightarrow>
   processImages_loop world model images i st =
     (case outcomes world model i (files st) (drop i images) of
        None \<Rightarrow> None
      | Some (rs, fs') \<Rightarrow>
          Some \<lparr>files = fs', results = take i (results st) @ map shown rs,
                successCount = successCount st + length (filter success rs)\<rparr>)"
proof (induction world model images i st rule: processImages_loop.induct)
  case (1 world model images i st)
  show ?case
  proof (cases "i < length images")
    case False
    with 1(2,3) show ?thesis by (subst processImages_loop.simps) simp
  next
    case True
    then have d: "drop i images = images ! i # drop (Suc i) images"
      by (simp add: Cons_nth_drop_Suc)
    show ?thesis
    proof (cases "renameImage (world i) (files st) (path (images ! i)) model")
      case None
      with True d show ?thesis by (subst processImages_loop.simps) simp
    next
      case (Some a)
      obtain r fs1 where a: "a = (r, fs1)" by (cases a)
      let ?processing = "(results st)[i := (results st ! i)\<lparr>status := Processing\<rparr>]"
      let ?st = "\<lparr>files = fs1, results = ?processing[i := shown r],
          successCount = (if success r then successCount st + 1 else successCount st)\<rparr>"
      have step: "processImages_loop world model images i st =
          processImages_loop world model images (i + 1) ?st"
        using True Some a by (subst processImages_loop.simps) (simp add: Let_def)
      have ih: "processImages_loop world model images (i + 1) ?st =
          (case outcomes world model (i + 1) (files ?st) (drop (i + 1) images) of
             None \<Rightarrow> None
           | Some (rs, fs') \<Rightarrow>
               Some \<lparr>files = fs', results = take (i + 1) (results ?st) @ map shown rs,
                     successCount = successCount ?st + length (filter success rs)\<rparr>)"
        using True Some a 1(3) by (intro 1(1) [OF True refl refl Some [unfolded a] refl]) simp_all
      have t: "take (i + 1) (results ?st) = take i (results st) @ [shown r]"
        using True 1(3) by (simp add: take_Suc_conv_app_nth)
      show ?thesis
        unfolding step ih d using Some a t
        by (auto split: option.splits)
    qed
  qed
qed

lemma processImages_outcomes:
  "processImages world model images fs =
     (case outcomes world model 0 fs images of
        None \<Rightarrow> None
      | Some (rs, fs') \<Rightarrow>
          Some \<lparr>final_files = fs', final_results = map shown rs,
                final_successCount = length (filter success rs), total = length images,
                shown_toast =
                  \<lparr>title = ''Processing Complete'',
                   toast_message = ''Renamed '' @ digits (length (filter success rs)) @ '' of '' @
                                   digits (length images) @ '' images''\<rparr>\<rparr>)"
  by (simp add: processImages_def processImages_loop_outcomes split: option.splits)

lemma renameImage_oldName:
  "renameImage env fs p m = Some (r, fs') \<Longrightarrow> oldName r = basename p"
  by (auto simp: renameImage_def Let_def split: prod.splits sum.splits option.splits if_splits)

lemma shown_status:
  "status (shown r) = (if success r then (if error r = Some ''Name unchanged'' then Skipped else Success)
                       else Error)"
  by (simp add: shown_def)

lemma count_success:
  "length (filter success rs) =
     length (filter (\<lambda>p. status p = Success) (map shown rs)) +
     length (filter (\<lambda>p. status p = Skipped) (map shown rs))"
  by (induction rs) (simp_all add: shown_status)

text \<open>
  One outcome per task, in the order of the tasks: the \<open>results\<close> the batch runner leaves
  are the outcomes of \<open>outcomes\<close>, as many as there are tasks, the one at index \<open>i\<close> being
  what \<open>renameImage\<close> returns for task \<open>i\<close> in the filesystem the tasks before it left.
\<close>

lemma processImages_outcome_per_task:
  assumes "finite (dom fs)"
  shows "\<exists>rs fs'. outcomes world model 0 fs images = Some (rs, fs') \<and>
     length rs = length images \<and>
     (\<exists>out. processImages world model images fs = Some out \<and>
        final_results out = map shown rs \<and> final_files out = fs') \<and>
     (\<forall>i<length images. \<exists>before after.
        outcomes world model 0 fs (take i images) = Some (take i rs, before) \<and>
        renameImage (world i) before (path (images ! i)) model = Some (rs ! i, after) \<and>
        oldName (rs ! i) = basename (path (images ! i)))"
proof -
  obtain rs fs' where o: "outcomes world model 0 fs images = Some (rs, fs')"
    and len: "length rs = length images"
    using outcomes_total [OF assms] by blast
  have each: "\<exists>before after.
        outcomes world model 0 fs (take i images) = Some (take i rs, before) \<and>
        renameImage (world i) before (path (images ! i)) model = Some (rs ! i, after) \<and>
        oldName (rs ! i) = basename (path (images ! i))" if i: "i < length images" for i
  proof -
    have split: "images = take i images @ images ! i # drop (Suc i) images"
      using i by (simp add: id_take_nth_drop)
    have "outcomes world model 0 fs (take i images @ images ! i # drop (Suc i) images) = Some (rs, fs')"
      using o split by simp
    then obtain rs0 before rs1 where
      a: "outcomes world model 0 fs (take i images) = Some (rs0, before)"
      and b: "outcomes world model (0 + length (take i images)) before
                (images ! i # drop (Suc i) images) = Some (rs1, fs')"
      and rs: "rs = rs0 @ rs1"
      unfolding outcomes_append by (auto split: option.splits prod.splits)
    from a have l0: "length rs0 = i"
      using outcomes_length i by fastforce
    from i have li: "length (take i images) = i" by simp
    from b obtain r after rs2 where
      c: "renameImage (world i) before (path (images ! i)) model = Some (r, after)"
      and rs1: "rs1 = r # rs2"
      unfolding li by (auto split: option.splits prod.splits)
    have "take i rs = rs0" and "rs ! i = r"
      using rs rs1 l0 by (simp_all add: nth_append)
    with a c show ?thesis using renameImage_oldName [OF c] by simp
  qed
  have "\<exists>out. processImages world model images fs = Some out \<and>
        final_results out = map shown rs \<and> final_files out = fs'"
    using o by (simp add: processImages_outcomes)
  with o len each show ?thesis by blast
qed

text \<open>
  C3. The claim: the batch runner produces one outcome per task, in the order of the tasks,
  and the failure of one task does not keep a later task of the batch from being processed
  and succeeding. The first part holds (lemma above). The second does not, for the reason
  C4 fails: the conversion's command line lets the shell run what the image path holds. In
  the batch of \<open>/d/$(rm -f *.png).png\<close> and \<open>/d/b.png\<close>, with the shell started in \<open>/d\<close>, the
  first task removes both files and fails, and the second, which is renamed when it runs in
  the filesystem the batch started with, fails too.
\<close>

theorem processImages_failure_spreads:
  "map_option (\<lambda>out. (map status (final_results out), final_files out ''/d/b.png''))
     (processImages
        (\<lambda>i. \<lparr>tmpdir = ''/tmp'', now = 7 + i,
               shell = (\<lambda>c f. if contains ''$(rm -f *.png)'' c
                  then (Some ''Command failed'', [(''/d/$(rm -f *.png).png'', None), (''/d/b.png'', None)])
                  else if f ''/d/b.png'' = None then (Some ''Command failed'', [])
                  else (None, [(''/tmp/raycast-lmstudio-'' @ digits (7 + i) @ ''.jpg'', Some ''JPEG'')])),
               fetch = (\<lambda>q. Inr \<lparr>http_status = 200, statusText = ''OK'',
                 json = Inr \<lparr>choices = Some [\<lparr>message_of = Some \<lparr>role = ''assistant'',
                                 content = Some ''Red Barn''\<rparr>, finish_reason = ''stop''\<rparr>],
                               api_error = None\<rparr>\<rparr>),
               rename_refusal = None\<rparr>)
        ''llava''
        [\<lparr>path = ''/d/$(rm -f *.png).png'', name = ''$(rm -f *.png).png''\<rparr>,
         \<lparr>path = ''/d/b.png'', name = ''b.png''\<rparr>]
        [''/d/$(rm -f *.png).png'' \<mapsto> ''IMG'', ''/d/b.png'' \<mapsto> ''B''])
     = Some ([Error, Error], None) \<and>
   map_option (\<lambda>(r, fs'). (success r, newName r, fs' ''/d/Red Barn.png''))
     (renameImage
        \<lparr>tmpdir = ''/tmp'', now = 8,
         shell = (\<lambda>c f. if contains ''$(rm -f *.png)'' c
            then (Some ''Command failed'', [(''/d/$(rm -f *.png).png'', None), (''/d/b.png'', None)])
            else if f ''/d/b.png'' = None then (Some ''Command failed'', [])
            else (None, [(''/tmp/raycast-lmstudio-8.jpg'', Some ''JPEG'')])),
         fetch = (\<lambda>q. Inr \<lparr>http_status = 200, statusText = ''OK'',
           json = Inr \<lparr>choices = Some [\<lparr>message_of = Some \<lparr>role = ''assistant'',
                           content = Some ''Red Barn''\<rparr>, finish_reason = ''stop''\<rparr>],
                         api_error = None\<rparr>\<rparr>),
         rename_refusal = None\<rparr>
        [''/d/$(rm -f *.png).png'' \<mapsto> ''IMG'', ''/d/b.png'' \<mapsto> ''B'']
        ''/d/b.png'' ''llava'')
     = Some (True, Some ''Red Barn.png'', Some ''B'')"
  by code_simp

text \<open>
  C8. The final tally: \<open>successCount\<close> is the number of outcomes with \<open>success = true\<close>, that
  is the number of results shown as \<open>success\<close> plus the number shown as \<open>skipped\<close> (the
  unchanged names), and the total is the number of tasks; the toast prints both.
\<close>

theorem processImages_tally:
  assumes "finite (dom fs)"
  shows "\<exists>out rs fs'. processImages world model images fs = Some out \<and>
     outcomes world model 0 fs images = Some (rs, fs') \<and>
     final_results out = map shown rs \<and>
     final_successCount out = length (filter success rs) \<and>
     final_successCount out =
       length (filter (\<lambda>p. status p = Success) (final_results out)) +
       length (filter (\<lambda>p. status p = Skipped) (final_results out)) \<and>
     total out = length images \<and>
     toast_message (shown_toast out) =
       ''Renamed '' @ digits (final_successCount out) @ '' of '' @ digits (total out) @ '' images''"
proof -
  obtain rs fs' where o: "outcomes world model 0 fs images = Some (rs, fs')"
    using outcomes_total [OF assms] by blast
  then show ?thesis
    using count_success [of rs] by (simp add: processImages_outcomes)
qed

theorem processImages_tally_witness:
  "\<exists>out.
     processImages
       (\<lambda>i. \<lparr>tmpdir = ''/tmp'', now = 7 + i,
              shell = (\<lambda>c f. (None, [(''/tmp/raycast-lmstudio-'' @ digits (7 + i) @ ''.jpg'', Some ''JPEG'')])),
              fetch = (\<lambda>q. Inr \<lparr>http_status = 200, statusText = ''OK'',
                   json = Inr \<lparr>choices = Some [\<lparr>message_of = Some \<lparr>role = ''assistant'',
                                   content = Some (if i = 0 then ''Red Barn'' else ''!!!'')\<rparr>,
                                   finish_reason = ''stop''\<rparr>],
                                 api_error = None\<rparr>\<rparr>),
              rename_refusal = None\<rparr>)
       ''llava''
       [\<lparr>path = ''/d/a.png'', name = ''a.png''\<rparr>, \<lparr>path = ''/d/b.png'', name = ''b.png''\<rparr>]
       [''/d/a.png'' \<mapsto> ''A'', ''/d/b.png'' \<mapsto> ''B''] = Some out \<and>
     final_successCount out = 1 \<and> total out = 2 \<and>
     toast_message (shown_toast out) = ''Renamed 1 of 2 images'' \<and>
     map status (final_results out) = [Success, Error]"
proof -
  define world where "world = (\<lambda>i::nat. \<lparr>tmpdir = ''/tmp'', now = 7 + i,
      shell = (\<lambda>c f. (None, [(''/tmp/raycast-lmstudio-'' @ digits (7 + i) @ ''.jpg'', Some ''JPEG'')])),
      fetch = (\<lambda>q :: chat_request. (Inr \<lparr>http_status = 200, statusText = ''OK'',
           json = Inr \<lparr>choices = Some [\<lparr>message_of = Some \<lparr>role = ''assistant'',
                           content = Some (if i = 0 then ''Red Barn'' else ''!!!'')\<rparr>,
                           finish_reason = ''stop''\<rparr>],
                         api_error = None\<rparr>\<rparr> :: js_error + response)),
      rename_refusal = None\<rparr>)"
  define images where
    "images = [\<lparr>path = ''/d/a.png'', name = ''a.png''\<rparr>, \<lparr>path = ''/d/b.png'', name = ''b.png''\<rparr>]"
  define fs :: filesystem where "fs = [''/d/a.png'' \<mapsto> ''A'', ''/d/b.png'' \<mapsto> ''B'']"
  have fin: "finite (dom fs)" by (simp add: fs_def)
  have "\<exists>out. processImages world ''llava'' images fs = Some out \<and>
      total out = length images \<and>
      toast_message (shown_toast out) =
       ''Renamed '' @ digits (final_successCount out) @ '' of '' @ digits (total out) @ '' images''"
    using processImages_tally [OF fin, of world "''llava''" images]
    by (elim exE conjE, intro exI conjI)
  then obtain out where out: "processImages world ''llava'' images fs = Some out"
    and tot: "total out = length images"
    and msg: "toast_message (shown_toast out) =
       ''Renamed '' @ digits (final_successCount out) @ '' of '' @ digits (total out) @ '' images''"
    by (elim exE conjE)
  have ev: "map_option (\<lambda>out. (final_successCount out, map status (final_results out)))
        (processImages world ''llava'' images fs) = Some (1, [Success, Error])"
    unfolding world_def images_def fs_def by code_simp
  have d: "digits 1 = ''1''" "digits 2 = ''2''" by code_simp+
  from out ev have c: "final_successCount out = 1" and st: "map status (final_results out) = [Success, Error]"
    by simp_all
  from tot have t: "total out = 2" by (simp add: images_def)
  from msg have m: "toast_message (shown_toast out) = ''Renamed 1 of 2 images''"
    unfolding c t d by simp
  from out c t m st have "processImages world ''llava'' images fs = Some out \<and>
     final_successCount out = 1 \<and> total out = 2 \<and>
     toast_message (shown_toast out) = ''Renamed 1 of 2 images'' \<and>
     map status (final_results out) = [Success, Error]"
    by simp
  then show ?thesis unfolding world_def images_def fs_def by (intro exI [of _ out])
qed

end
